theory Spec2Isabelle
  imports Main
begin

section \<open>The base-62 code encoder\<close>

text \<open>
  \<^verbatim>\<open>server.js\<close>, lines 36 to 48. The argument of \<open>encodeBase62\<close> is a JavaScript number,
  a double, holding a non-negative integer; a \<open>nat\<close> stands for the integer it holds.
  The function is embedded twice. \<open>encodeBase62\<close> is the loop on exact integers, with
  \<open>num % 62\<close> and \<open>Math.floor(num / 62)\<close> as \<open>mod\<close> and \<open>div\<close>. \<open>encodeBase62_double\<close>
  (further down) is the loop with the arithmetic of doubles, where the quotient is
  rounded to 53 significant bits before \<open>Math.floor\<close>. The two agree on every argument
  below \<open>62 * 2 ^ 48\<close> (lemma \<open>encodeBase62_double_exact\<close>), so on every integer below
  \<open>2 ^ 53\<close>, and differ above. The request handlers are written with \<open>encodeBase62\<close>, which
  is what the program computes for every counter value below that bound.
\<close>

definition BASE62_CHARS :: string where
  "BASE62_CHARS = ''0123456789abcdefghijklmnopqrstuvwxyzABCDEFGHIJKLMNOPQRSTUVWXYZ''"

text \<open>
  The \<^verbatim>\<open>while (num > 0)\<close> loop, with \<open>result\<close> as the accumulator. The index
  \<open>num mod 62\<close> is always inside the 62 characters of the alphabet.
\<close>

function encode_loop :: "nat \<Rightarrow> string \<Rightarrow> string" where
  "encode_loop num result =
     (if num > 0
      then encode_loop (num div 62) (BASE62_CHARS ! (num mod 62) # result)
      else result)"
  by pat_completeness auto
termination
  by (relation "measure fst") auto

declare encode_loop.simps [simp del]

definition encodeBase62 :: "nat \<Rightarrow> string" where
  "encodeBase62 num = (if num = 0 then [BASE62_CHARS ! 0] else encode_loop num [])"

text \<open>
  Modelled from the spec: the repository has no decoder. The spec asks for "the
  corresponding decode", the positional reading of a most-significant-first base-62
  numeral over the same alphabet. A character outside the alphabet has no digit value,
  and the decoder then has no result.
\<close>

fun digitValue :: "char \<Rightarrow> string \<Rightarrow> nat option" where
  "digitValue c [] = None"
| "digitValue c (x # xs) =
     (if c = x then Some 0 else map_option Suc (digitValue c xs))"

fun decode_from :: "nat \<Rightarrow> string \<Rightarrow> nat option" where
  "decode_from acc [] = Some acc"
| "decode_from acc (c # cs) =
     (case digitValue c BASE62_CHARS of
        None \<Rightarrow> None
      | Some v \<Rightarrow> decode_from (acc * 62 + v) cs)"

definition decodeBase62 :: "string \<Rightarrow> nat option" where
  "decodeBase62 s = (if s = [] then None else decode_from 0 s)"

section \<open>The encoder in the arithmetic of doubles\<close>

text \<open>
  The quotient \<open>num / b\<close> of two doubles holding positive integers is the double nearest
  to the exact quotient, ties going to the even significand; \<open>Math.floor\<close> then takes its
  integer part. The exact quotient is scaled by a power of two so that it lies between
  \<open>2 ^ 52\<close> and \<open>2 ^ 53\<close>, rounded to an integer there, and scaled back: \<open>shiftUp x lim\<close>
  is the least \<open>s\<close> with \<open>lim \<le> x * 2 ^ s\<close>, and \<open>shiftDown x lim\<close> the least \<open>t\<close> with
  \<open>x < lim * 2 ^ t\<close>. The remainder \<open>num % 62\<close> of doubles is exact. The range of doubles
  is left out: an integer that a double holds is below \<open>2 ^ 1024\<close>.
\<close>

function shiftUp :: "nat \<Rightarrow> nat \<Rightarrow> nat" where
  "shiftUp x lim = (if 0 < x \<and> x < lim then Suc (shiftUp (2 * x) lim) else 0)"
  by pat_completeness auto
termination
  by (relation "measure (\<lambda>(x, lim). lim - x)") auto

function shiftDown :: "nat \<Rightarrow> nat \<Rightarrow> nat" where
  "shiftDown x lim = (if 0 < lim \<and> lim \<le> x then Suc (shiftDown x (2 * lim)) else 0)"
  by pat_completeness auto
termination
  by (relation "measure (\<lambda>(x, lim). Suc x - lim)") auto

declare shiftUp.simps [simp del] shiftDown.simps [simp del]

definition roundHalfEven :: "nat \<Rightarrow> nat \<Rightarrow> nat" where
  "roundHalfEven a b =
     (let q = a div b; r = a mod b
      in if 2 * r < b then q
         else if b < 2 * r then q + 1
         else if even q then q else q + 1)"

definition floorQuotient :: "nat \<Rightarrow> nat \<Rightarrow> nat" where
  "floorQuotient num b =
     (if num = 0 then 0
      else if num < b * 2 ^ 52 then
        (let s = shiftUp num (b * 2 ^ 52)
         in roundHalfEven (num * 2 ^ s) b div 2 ^ s)
      else
        (let t = shiftDown num (b * 2 ^ 53)
         in roundHalfEven num (b * 2 ^ t) * 2 ^ t))"

text \<open>The quotient is smaller than a positive dividend, so the loop ends.\<close>

lemma shiftUp_step: "0 < x \<Longrightarrow> x < lim \<Longrightarrow> shiftUp x lim = Suc (shiftUp (2 * x) lim)"
  by (subst shiftUp.simps) simp

lemma shiftUp_stop: "\<not> (0 < x \<and> x < lim) \<Longrightarrow> shiftUp x lim = 0"
  by (subst shiftUp.simps) simp

lemma shiftDown_step:
  "0 < lim \<Longrightarrow> lim \<le> x \<Longrightarrow> shiftDown x lim = Suc (shiftDown x (2 * lim))"
  by (subst shiftDown.simps) simp

lemma shiftDown_stop: "\<not> (0 < lim \<and> lim \<le> x) \<Longrightarrow> shiftDown x lim = 0"
  by (subst shiftDown.simps) simp

lemma shiftUp_reaches: "0 < x \<Longrightarrow> lim \<le> x * 2 ^ shiftUp x lim"
proof (induction x lim rule: shiftUp.induct)
  case (1 x lim)
  show ?case
  proof (cases "x < lim")
    case True
    with "1.prems" "1.IH" have "lim \<le> (2 * x) * 2 ^ shiftUp (2 * x) lim" by simp
    with True "1.prems" show ?thesis by (simp add: shiftUp_step mult.assoc)
  next
    case False
    then show ?thesis by (simp add: shiftUp_stop)
  qed
qed

lemma shiftDown_bound: "0 < lim \<Longrightarrow> lim \<le> x \<Longrightarrow> lim * 2 ^ shiftDown x lim \<le> 2 * x"
proof (induction x lim rule: shiftDown.induct)
  case (1 x lim)
  show ?case
  proof (cases "2 * lim \<le> x")
    case True
    with "1.prems" "1.IH" have "(2 * lim) * 2 ^ shiftDown x (2 * lim) \<le> 2 * x" by simp
    with "1.prems" show ?thesis by (simp add: shiftDown_step mult.assoc)
  next
    case False
    then have "shiftDown x (2 * lim) = 0" by (simp add: shiftDown_stop)
    with "1.prems" show ?thesis by (simp add: shiftDown_step)
  qed
qed

lemma roundHalfEven_upper: "0 < b \<Longrightarrow> 2 * (roundHalfEven a b * b) \<le> 2 * a + b"
proof -
  assume b: "0 < b"
  have a: "a = a div b * b + a mod b" by simp
  have up: "2 * ((a div b + 1) * b) = 2 * (a div b * b) + 2 * b"
    by (simp add: algebra_simps)
  show ?thesis
  proof (cases "2 * (a mod b) < b")
    case True
    then have eq: "roundHalfEven a b = a div b" by (simp add: roundHalfEven_def Let_def)
    have "a div b * b \<le> a" by simp
    then have "2 * (a div b * b) \<le> 2 * a + b" by linarith
    then show ?thesis by (simp only: eq)
  next
    case False
    then have "roundHalfEven a b \<le> a div b + 1" by (simp add: roundHalfEven_def Let_def)
    then have "roundHalfEven a b * b \<le> (a div b + 1) * b" by (rule mult_le_mono1)
    then have "2 * (roundHalfEven a b * b) \<le> 2 * ((a div b + 1) * b)" by linarith
    also have "\<dots> = 2 * (a div b * b) + 2 * b" by (rule up)
    also have "\<dots> \<le> 2 * (a div b * b) + 2 * (a mod b) + b" using False by simp
    also have "\<dots> = 2 * a + b" using a by (metis distrib_left)
    finally show ?thesis .
  qed
qed

lemma floorQuotient_less: "0 < n \<Longrightarrow> floorQuotient n 62 < n"
proof -
  assume n: "0 < n"
  show ?thesis
  proof (cases "n < 62 * 2 ^ 52")
    case True
    define P :: nat where "P = 2 ^ shiftUp n (62 * 2 ^ 52)"
    define m where "m = roundHalfEven (n * P) 62"
    have P: "0 < P" by (simp add: P_def)
    have res: "floorQuotient n 62 = m div P"
      using n True by (simp add: floorQuotient_def Let_def P_def m_def)
    have "2 * (m * 62) \<le> 2 * (n * P) + 62"
      unfolding m_def by (rule roundHalfEven_upper) simp
    then have "62 * m \<le> n * P + 31" by simp
    moreover have "m div P * P \<le> m" by simp
    ultimately have "62 * (m div P * P) \<le> n * P + 31" by linarith
    also have "\<dots> \<le> n * P + 31 * P" using P by simp
    finally have "(62 * (m div P)) * P \<le> (n + 31) * P" by (simp add: algebra_simps)
    with P have "62 * (m div P) \<le> n + 31" by simp
    with n have "m div P < n" by linarith
    then show ?thesis by (simp only: res)
  next
    case False
    define T :: nat where "T = 2 ^ shiftDown n (62 * 2 ^ 53)"
    define m where "m = roundHalfEven n (62 * T)"
    have T: "0 < T" by (simp add: T_def)
    have res: "floorQuotient n 62 = m * T"
      using n False by (simp add: floorQuotient_def Let_def T_def m_def)
    have small: "31 * T \<le> n"
    proof (cases "62 * 2 ^ 53 \<le> n")
      case True
      then have "(62 * 2 ^ 53) * T \<le> 2 * n"
        unfolding T_def by (intro shiftDown_bound) simp_all
      then show ?thesis by simp
    next
      case below: False
      then have "T = 1" by (simp add: T_def shiftDown_stop)
      with False show ?thesis by simp
    qed
    have "2 * (m * (62 * T)) \<le> 2 * n + 62 * T"
      unfolding m_def by (rule roundHalfEven_upper) (simp add: T)
    then have "62 * (m * T) \<le> n + 31 * T" by (simp add: algebra_simps)
    with small have "62 * (m * T) \<le> 2 * n" by linarith
    with n have "m * T < n" by linarith
    then show ?thesis by (simp only: res)
  qed
qed

text \<open>\<open>encodeBase62\<close> as the program computes it.\<close>

function encode_loop_double :: "nat \<Rightarrow> string \<Rightarrow> string" where
  "encode_loop_double num result =
     (if num > 0
      then encode_loop_double (floorQuotient num 62) (BASE62_CHARS ! (num mod 62) # result)
      else result)"
  by pat_completeness auto
termination
  by (relation "measure fst") (auto simp: floorQuotient_less)

declare encode_loop_double.simps [simp del]

definition encodeBase62_double :: "nat \<Rightarrow> string" where
  "encodeBase62_double num =
     (if num = 0 then [BASE62_CHARS ! 0] else encode_loop_double num [])"

section \<open>Strings and validation\<close>

text \<open>
  A JavaScript string is modelled by the list of its code units, restricted to the
  code units below 256 that a \<open>char\<close> holds. \<open>String.prototype.trim\<close> removes white space
  and line terminators from both ends; below 256 these are the code units 9 to 13, 32
  and 160.
\<close>

definition isWhiteSpace :: "char \<Rightarrow> bool" where
  "isWhiteSpace c = ((of_char c :: nat) \<in> {9, 10, 11, 12, 13, 32, 160})"

definition trim :: "string \<Rightarrow> string" where
  "trim s = rev (dropWhile isWhiteSpace (rev (dropWhile isWhiteSpace s)))"

definition startsWith :: "string \<Rightarrow> string \<Rightarrow> bool" where
  "startsWith s p = (take (length p) s = p)"

text \<open>
  The configuration of a deployment. \<open>isValidUrl\<close> (lines 121 to 128) calls the
  platform's \<^verbatim>\<open>new URL(string)\<close>, which is not part of the repository: it is the
  parameter \<open>newURL\<close>, giving \<open>None\<close> where the constructor throws and the \<open>protocol\<close> of
  the parsed URL otherwise. \<open>BACKEND_URL\<close> is the text that the template literals of the
  responses render for \<^verbatim>\<open>process.env.BACKEND_URL\<close>.
\<close>

record config =
  newURL :: "string \<Rightarrow> string option"
  BACKEND_URL :: string

definition isValidUrl :: "config \<Rightarrow> string \<Rightarrow> bool" where
  "isValidUrl cfg string =
     (case newURL cfg string of
        None \<Rightarrow> False
      | Some protocol \<Rightarrow> protocol = ''http:'' \<or> protocol = ''https:'')"

text \<open>
  \<open>isValidShortCode\<close> (lines 131 to 133): the regular expression \<^verbatim>\<open>/^[a-zA-Z0-9]+$/\<close>
  has no flags, so it accepts exactly the non-empty strings made of these characters.
\<close>

definition isAlnum :: "char \<Rightarrow> bool" where
  "isAlnum c =
     (let n = (of_char c :: nat)
      in (97 \<le> n \<and> n \<le> 122) \<or> (65 \<le> n \<and> n \<le> 90) \<or> (48 \<le> n \<and> n \<le> 57))"

definition isValidShortCode :: "string \<Rightarrow> bool" where
  "isValidShortCode code =
     ((code \<noteq> [] \<and> list_all isAlnum code) \<and> length code \<ge> 1 \<and> length code \<le> 10)"

section \<open>The store\<close>

text \<open>
  The two collections of the database (lines 51 to 90). A \<open>Url\<close> document has the fields
  of \<open>urlSchema\<close>; the collection is the list of its documents in insertion order, and
  the position of a document stands for its \<open>_id\<close> (the source never deletes a
  document, so a position always names the same document). The \<open>updatedAt\<close> stamp that
  the \<^verbatim>\<open>timestamps\<close> option keeps is left out: no handler reads it. Of the \<open>Counter\<close> collection
  only the document named \<^verbatim>\<open>urlId\<close> is ever read or written: \<open>counter\<close> is its \<open>value\<close>, or
  \<open>None\<close> when there is no such document.
\<close>

record url_doc =
  originalUrl :: string
  shortCode :: string
  clicks :: nat
  createdAt :: nat

record db =
  urls :: "url_doc list"
  counter :: "nat option"

definition emptyStore :: db where
  "emptyStore = \<lparr>urls = [], counter = None\<rparr>"

text \<open>
  What a request cannot control: whether the calls to the store made while it is served
  are rejected (a lost connection, a timeout), one flag for each kind of call, and the
  clock. A rejected call leaves the store as it was.
\<close>

record env =
  findFails :: bool
  counterFails :: bool
  saveFails :: bool
  clickFails :: bool
  now :: nat

datatype error = StoreError | ValidationError | DuplicateKey

text \<open>The calls a handler makes to the store, in the order it makes them.\<close>

datatype db_call =
    UrlFindOneByOriginalUrl string
  | UrlFindOneByShortCode string
  | CounterFindOneAndUpdate
  | UrlSave string string
  | UrlFindByIdAndUpdate nat

fun findOne :: "(url_doc \<Rightarrow> bool) \<Rightarrow> url_doc list \<Rightarrow> (nat \<times> url_doc) option" where
  "findOne P [] = None"
| "findOne P (d # ds) =
     (if P d then Some (0, d)
      else map_option (\<lambda>(i, d'). (Suc i, d')) (findOne P ds))"

definition Url_findOne ::
  "env \<Rightarrow> (url_doc \<Rightarrow> bool) \<Rightarrow> db \<Rightarrow> error + (nat \<times> url_doc) option" where
  "Url_findOne e P st =
     (if findFails e then Inl StoreError else Inr (findOne P (urls st)))"

text \<open>
  \<^verbatim>\<open>new Url({ originalUrl, shortCode })\<close>: both paths of the schema are declared with
  \<^verbatim>\<open>trim: true\<close>, \<open>clicks\<close> defaults to 0 and \<open>createdAt\<close> to the current time.
\<close>

definition new_Url :: "env \<Rightarrow> string \<Rightarrow> string \<Rightarrow> url_doc" where
  "new_Url e url code =
     \<lparr>originalUrl = trim url, shortCode = trim code, clicks = 0, createdAt = now e\<rparr>"

text \<open>
  \<^verbatim>\<open>save()\<close>: both paths are \<^verbatim>\<open>required\<close>, which an empty string does not satisfy
  (validation runs before the document is sent); \<open>shortCode\<close> has a unique index, so the
  store rejects a document whose \<open>shortCode\<close> is that of a stored document.
\<close>

definition Url_save :: "env \<Rightarrow> url_doc \<Rightarrow> db \<Rightarrow> error + db" where
  "Url_save e d st =
     (if originalUrl d = [] \<or> shortCode d = [] then Inl ValidationError
      else if saveFails e then Inl StoreError
      else if shortCode d \<in> set (map shortCode (urls st)) then Inl DuplicateKey
      else Inr (st\<lparr>urls := urls st @ [d]\<rparr>))"

text \<open>
  \<^verbatim>\<open>Url.findByIdAndUpdate(_id, { $inc: { clicks: 1 } })\<close>. The handler does not wait for
  it; in this sequential model it is applied before the next request is served.
\<close>

definition Url_findByIdAndUpdate :: "env \<Rightarrow> nat \<Rightarrow> db \<Rightarrow> db" where
  "Url_findByIdAndUpdate e i st =
     (if clickFails e \<or> i \<ge> length (urls st) then st
      else st\<lparr>urls := (urls st)[i := (urls st ! i)\<lparr>clicks := clicks (urls st ! i) + 1\<rparr>]\<rparr>)"

text \<open>
  \<open>initializeCounter\<close> (lines 93 to 103): an error of either call is logged and not
  rethrown.
\<close>

definition initializeCounter :: "env \<Rightarrow> db \<Rightarrow> db" where
  "initializeCounter e st =
     (if counterFails e then st
      else case counter st of
             None \<Rightarrow> st\<lparr>counter := Some 100000\<rparr>
           | Some v \<Rightarrow> st)"

text \<open>
  \<open>getNextCounterValue\<close> (lines 106 to 118): one \<^verbatim>\<open>findOneAndUpdate\<close> with \<^verbatim>\<open>$inc\<close>,
  \<^verbatim>\<open>new: true\<close> and \<^verbatim>\<open>upsert: true\<close>. When there is no counter document the upsert
  inserts one and applies the increment to the absent field, which gives the value 1.
  An error is rethrown.
\<close>

definition getNextCounterValue :: "env \<Rightarrow> db \<Rightarrow> error + (nat \<times> db)" where
  "getNextCounterValue e st =
     (if counterFails e then Inl StoreError
      else let value = (case counter st of None \<Rightarrow> 1 | Some v \<Rightarrow> v + 1)
           in Inr (value, st\<lparr>counter := Some value\<rparr>))"

text \<open>
  The value an increment starts from: that of the counter document, and 0 when there is
  none.
\<close>

definition counterValue :: "db \<Rightarrow> nat" where
  "counterValue st = (case counter st of None \<Rightarrow> 0 | Some v \<Rightarrow> v)"

section \<open>The request handlers\<close>

text \<open>
  A response is the call chain the handler ends with: \<^verbatim>\<open>res.status(n).json(body)\<close> is
  \<open>Json n body\<close>, and \<^verbatim>\<open>res.status(n).redirect(url)\<close> is \<open>StatusRedirect n url\<close>, with
  the status and the address exactly as the handler passes them. What the web framework
  then puts on the wire is outside the repository.
\<close>

datatype body =
    ErrorBody string
  | NotFoundBody string string
  | ShortenBody string string string string
  | InfoBody string string nat nat

datatype response =
    Json nat body
  | StatusRedirect nat string

fun statusOf :: "response \<Rightarrow> nat" where
  "statusOf (Json n b) = n"
| "statusOf (StatusRedirect n u) = n"

fun redirectTarget :: "response \<Rightarrow> string option" where
  "redirectTarget (Json n b) = None"
| "redirectTarget (StatusRedirect n u) = Some u"

fun shortCodeOf :: "response \<Rightarrow> string option" where
  "shortCodeOf (Json n (ShortenBody shortUrl code url message)) = Some code"
| "shortCodeOf r = None"

record outcome =
  response :: response
  dbCalls :: "db_call list"
  store :: db

text \<open>The value of \<^verbatim>\<open>req.body.longUrl\<close>: absent, a string, or a value of another type.\<close>

datatype js_value = JSUndefined | JSString string | JSOther

text \<open>\<^verbatim>\<open>POST /api/create/longurl\<close> (lines 146 to 207).\<close>

definition shortenHandler :: "config \<Rightarrow> env \<Rightarrow> db \<Rightarrow> js_value \<Rightarrow> outcome" where
  "shortenHandler cfg e st longUrl =
     (case longUrl of
        JSString s \<Rightarrow>
          if s = [] then
            \<lparr>response = Json 400 (ErrorBody ''Long URL is required and must be a string''),
             dbCalls = [], store = st\<rparr>
          else
            let trimmedUrl = trim s in
            if \<not> isValidUrl cfg trimmedUrl then
              \<lparr>response = Json 400
                 (ErrorBody ''Invalid URL format. Please include http:// or https://''),
               dbCalls = [], store = st\<rparr>
            else
              (case Url_findOne e (\<lambda>d. originalUrl d = trimmedUrl) st of
                 Inl err \<Rightarrow>
                   \<lparr>response = Json 500 (ErrorBody ''Internal server error. Please try again.''),
                    dbCalls = [UrlFindOneByOriginalUrl trimmedUrl], store = st\<rparr>
               | Inr (Some (i, existingUrl)) \<Rightarrow>
                   \<lparr>response = Json 200
                      (ShortenBody (BACKEND_URL cfg @ ''/'' @ shortCode existingUrl)
                         (shortCode existingUrl) trimmedUrl ''URL already exists''),
                    dbCalls = [UrlFindOneByOriginalUrl trimmedUrl], store = st\<rparr>
               | Inr None \<Rightarrow>
                   (case getNextCounterValue e st of
                      Inl err \<Rightarrow>
                        \<lparr>response = Json 500
                           (ErrorBody ''Internal server error. Please try again.''),
                         dbCalls = [UrlFindOneByOriginalUrl trimmedUrl,
                                    CounterFindOneAndUpdate],
                         store = st\<rparr>
                    | Inr (counterId, st1) \<Rightarrow>
                        let code = encodeBase62 counterId;
                            newUrl = new_Url e trimmedUrl code
                        in (case Url_save e newUrl st1 of
                              Inl err \<Rightarrow>
                                \<lparr>response = Json 500
                                   (ErrorBody ''Internal server error. Please try again.''),
                                 dbCalls = [UrlFindOneByOriginalUrl trimmedUrl,
                                            CounterFindOneAndUpdate,
                                            UrlSave trimmedUrl code],
                                 store = st1\<rparr>
                            | Inr st2 \<Rightarrow>
                                \<lparr>response = Json 201
                                   (ShortenBody (BACKEND_URL cfg @ ''/'' @ code) code
                                      trimmedUrl ''Short URL created successfully''),
                                 dbCalls = [UrlFindOneByOriginalUrl trimmedUrl,
                                            CounterFindOneAndUpdate,
                                            UrlSave trimmedUrl code],
                                 store = st2\<rparr>)))
      | _ \<Rightarrow>
          \<lparr>response = Json 400 (ErrorBody ''Long URL is required and must be a string''),
           dbCalls = [], store = st\<rparr>)"

text \<open>\<^verbatim>\<open>GET /api/info/*\<close> (lines 210 to 247).\<close>

definition infoHandler :: "env \<Rightarrow> db \<Rightarrow> string \<Rightarrow> outcome" where
  "infoHandler e st code =
     (if code = [] \<or> \<not> isValidShortCode code then
        \<lparr>response = Json 400 (ErrorBody ''Invalid short code format''),
         dbCalls = [], store = st\<rparr>
      else
        (case Url_findOne e (\<lambda>d. shortCode d = code) st of
           Inl err \<Rightarrow>
             \<lparr>response = Json 500 (ErrorBody ''Internal server error''),
              dbCalls = [UrlFindOneByShortCode code], store = st\<rparr>
         | Inr None \<Rightarrow>
             \<lparr>response = Json 404 (ErrorBody ''Short URL not found''),
              dbCalls = [UrlFindOneByShortCode code], store = st\<rparr>
         | Inr (Some (i, urlDoc)) \<Rightarrow>
             \<lparr>response = Json 200
                (InfoBody (originalUrl urlDoc) (shortCode urlDoc) (clicks urlDoc)
                   (createdAt urlDoc)),
              dbCalls = [UrlFindOneByShortCode code], store = st\<rparr>))"

text \<open>
  \<^verbatim>\<open>GET /*\<close> (lines 263 to 310), the redirect handler; \<open>code\<close> is \<^verbatim>\<open>req.params[0]\<close>, the
  request path after its leading slash.
\<close>

definition redirectHandler :: "env \<Rightarrow> db \<Rightarrow> string \<Rightarrow> outcome" where
  "redirectHandler e st code =
     (if code = [] \<or> startsWith code ''api/'' \<or> code = ''favicon.ico'' then
        \<lparr>response = Json 404 (ErrorBody ''Page not found''),
         dbCalls = [], store = st\<rparr>
      else if \<not> isValidShortCode code then
        \<lparr>response = Json 400 (ErrorBody ''Invalid short code format''),
         dbCalls = [], store = st\<rparr>
      else
        (case Url_findOne e (\<lambda>d. shortCode d = code) st of
           Inl err \<Rightarrow>
             \<lparr>response = Json 500 (ErrorBody ''Internal server error''),
              dbCalls = [UrlFindOneByShortCode code], store = st\<rparr>
         | Inr None \<Rightarrow>
             \<lparr>response = Json 404 (NotFoundBody ''Short URL not found'' code),
              dbCalls = [UrlFindOneByShortCode code], store = st\<rparr>
         | Inr (Some (i, urlDoc)) \<Rightarrow>
             \<lparr>response = StatusRedirect 301 (originalUrl urlDoc),
              dbCalls = [UrlFindOneByShortCode code, UrlFindByIdAndUpdate i],
              store = Url_findByIdAndUpdate e i st\<rparr>))"

subsection \<open>Sequences of operations\<close>

text \<open>
  The server serves one request after the other; \<open>Startup\<close> is the call of
  \<open>initializeCounter\<close> that \<open>connectDB\<close> makes when a process starts.
\<close>

datatype operation =
    Startup
  | Shorten js_value
  | Info string
  | Resolve string

fun step :: "config \<Rightarrow> db \<Rightarrow> env \<times> operation \<Rightarrow> db" where
  "step cfg st (e, Startup) = initializeCounter e st"
| "step cfg st (e, Shorten longUrl) = store (shortenHandler cfg e st longUrl)"
| "step cfg st (e, Info code) = store (infoHandler e st code)"
| "step cfg st (e, Resolve code) = store (redirectHandler e st code)"

definition run :: "config \<Rightarrow> db \<Rightarrow> (env \<times> operation) list \<Rightarrow> db" where
  "run cfg st ops = foldl (step cfg) st ops"


subsection \<open>Stores in which the counter accounts for every short code\<close>

text \<open>
  The property of the store that the proofs below carry along a sequence of operations:
  the stored short codes are pairwise different, and each is the code of an integer that
  the counter has already passed.
\<close>

definition allocated :: "db \<Rightarrow> bool" where
  "allocated st =
     (distinct (map shortCode (urls st)) \<and>
      set (map shortCode (urls st)) \<subseteq> encodeBase62 ` {n. n \<le> counterValue st})"

text \<open>What of a stored document never changes: its address and its short code.\<close>

definition link :: "url_doc \<Rightarrow> string \<times> string" where
  "link d = (originalUrl d, shortCode d)"

subsection \<open>A configuration and an environment to run the handlers on\<close>

text \<open>
  An instance of the parameter \<open>newURL\<close> for concrete runs: it knows the three schemes
  below and nothing else of a URL (the platform's parser accepts more and checks more).
  On the addresses used in this theory it answers as the platform does.
\<close>

definition sampleURL :: "string \<Rightarrow> string option" where
  "sampleURL s =
     (if startsWith s ''http://'' \<and> length s > 7 then Some ''http:''
      else if startsWith s ''https://'' \<and> length s > 8 then Some ''https:''
      else if startsWith s ''ftp://'' \<and> length s > 6 then Some ''ftp:''
      else None)"

definition sampleConfig :: config where
  "sampleConfig = \<lparr>newURL = sampleURL, BACKEND_URL = ''http://localhost:5080''\<rparr>"

definition noFaults :: env where
  "noFaults =
     \<lparr>findFails = False, counterFails = False, saveFails = False, clickFails = False,
      now = 0\<rparr>"

section \<open>Properties\<close>

subsection \<open>Facts about the encoder\<close>

lemma encode_loop_zero: "encode_loop 0 acc = acc"
  by (simp add: encode_loop.simps)

lemma encode_loop_pos:
  "0 < n \<Longrightarrow> encode_loop n acc = encode_loop (n div 62) (BASE62_CHARS ! (n mod 62) # acc)"
  by (subst encode_loop.simps) simp

lemma length_BASE62_CHARS: "length BASE62_CHARS = 62"
  by (simp add: BASE62_CHARS_def)

lemma distinct_BASE62_CHARS: "distinct BASE62_CHARS"
  by (simp add: BASE62_CHARS_def)

lemma digitValue_nth:
  "distinct xs \<Longrightarrow> i < length xs \<Longrightarrow> digitValue (xs ! i) xs = Some i"
proof (induction xs arbitrary: i)
  case Nil
  then show ?case by simp
next
  case (Cons x xs)
  show ?case
  proof (cases i)
    case 0
    then show ?thesis by simp
  next
    case (Suc j)
    with Cons.prems have "xs ! j \<in> set xs" "x \<notin> set xs" "distinct xs" "j < length xs"
      by auto
    with Cons.IH [of j] Suc show ?thesis by auto
  qed
qed

lemma digitValue_digit:
  "d < 62 \<Longrightarrow> digitValue (BASE62_CHARS ! d) BASE62_CHARS = Some d"
  by (simp add: digitValue_nth distinct_BASE62_CHARS length_BASE62_CHARS)

lemma decode_from_encode_loop:
  "decode_from 0 (encode_loop n acc) = decode_from n acc"
proof (induction n acc rule: encode_loop.induct)
  case (1 num result)
  show ?case
  proof (cases "0 < num")
    case True
    have "decode_from 0 (encode_loop num result) =
          decode_from (num div 62) (BASE62_CHARS ! (num mod 62) # result)"
      using True "1.IH" by (simp add: encode_loop_pos)
    also have "\<dots> = decode_from (num div 62 * 62 + num mod 62) result"
      by (simp add: digitValue_digit)
    finally show ?thesis by simp
  next
    case False
    then show ?thesis by (simp add: encode_loop_zero)
  qed
qed

lemma encode_loop_append: "encode_loop n acc = encode_loop n [] @ acc"
proof (induction n arbitrary: acc rule: less_induct)
  case (less n)
  show ?case
  proof (cases "0 < n")
    case True
    then have smaller: "n div 62 < n" by simp
    have "encode_loop n acc =
          encode_loop (n div 62) [] @ (BASE62_CHARS ! (n mod 62) # acc)"
      using True less.IH [OF smaller, of "BASE62_CHARS ! (n mod 62) # acc"]
      by (simp add: encode_loop_pos)
    moreover have "encode_loop n [] =
          encode_loop (n div 62) [] @ [BASE62_CHARS ! (n mod 62)]"
      using True less.IH [OF smaller, of "[BASE62_CHARS ! (n mod 62)]"]
      by (simp add: encode_loop_pos)
    ultimately show ?thesis by simp
  next
    case False
    then show ?thesis by (simp add: encode_loop_zero)
  qed
qed

lemma encode_loop_nonempty: "0 < n \<Longrightarrow> encode_loop n acc \<noteq> []"
  using encode_loop_append [of "n div 62" "BASE62_CHARS ! (n mod 62) # acc"]
  by (simp add: encode_loop_pos)

lemma encodeBase62_nonempty: "encodeBase62 n \<noteq> []"
  by (simp add: encodeBase62_def encode_loop_nonempty)

lemma decode_encode: "decodeBase62 (encodeBase62 n) = Some n"
proof (cases "n = 0")
  case True
  then show ?thesis
    by (simp add: decodeBase62_def encodeBase62_def BASE62_CHARS_def)
next
  case False
  then show ?thesis
    using decode_from_encode_loop [of n "[]"]
    by (simp add: decodeBase62_def encodeBase62_def encode_loop_nonempty)
qed

lemma encodeBase62_inj:
  assumes "encodeBase62 a = encodeBase62 b"
  shows "a = b"
proof -
  have "Some a = decodeBase62 (encodeBase62 a)"
    by (simp only: decode_encode)
  also have "\<dots> = decodeBase62 (encodeBase62 b)"
    by (simp only: assms)
  also have "\<dots> = Some b"
    by (simp only: decode_encode)
  finally show ?thesis by simp
qed

subsection \<open>Where the two embeddings of the encoder agree, and where they part\<close>

lemma encode_loop_double_zero: "encode_loop_double 0 acc = acc"
  by (simp add: encode_loop_double.simps)

lemma encode_loop_double_pos:
  "0 < n \<Longrightarrow> encode_loop_double n acc =
     encode_loop_double (floorQuotient n 62) (BASE62_CHARS ! (n mod 62) # acc)"
  by (subst encode_loop_double.simps) simp

text \<open>
  With at least five binary places below the unit, rounding the quotient by 62 never
  reaches the next integer.
\<close>

lemma round_scaled_quotient:
  assumes "32 \<le> P"
  shows "roundHalfEven (n * P) 62 div P = n div 62"
proof -
  define d where "d = n div 62"
  define r where "r = n mod 62"
  define b where "b = (r * P) div 62"
  define h where "h = (r * P) mod 62"
  have n: "n = 62 * d + r" and r: "r \<le> 61"
    by (simp_all add: d_def r_def)
  have rP: "r * P = 62 * b + h" and h: "h < 62"
    by (simp_all add: b_def h_def)
  define k where "k = d * P + b"
  have split: "n * P = k * 62 + h"
    using rP by (simp add: n k_def algebra_simps)
  have "(k * 62 + h) div 62 = k" and "(k * 62 + h) mod 62 = h"
    using h by simp_all
  then have q: "(n * P) div 62 = d * P + b" and m: "(n * P) mod 62 = h"
    by (simp_all only: split k_def)
  have "r * P \<le> 61 * P" using r by (rule mult_le_mono1)
  with rP have bound: "62 * b + h \<le> 61 * P" by simp
  have P: "0 < P" using assms by simp
  have low: "d * P \<le> roundHalfEven (n * P) 62"
    by (simp add: roundHalfEven_def Let_def q m)
  have up: "roundHalfEven (n * P) 62 < d * P + P"
  proof (cases "2 * h < 62")
    case True
    then have "roundHalfEven (n * P) 62 = d * P + b"
      by (simp add: roundHalfEven_def Let_def q m)
    moreover from bound P have "b < P" by linarith
    ultimately show ?thesis by simp
  next
    case False
    then have "roundHalfEven (n * P) 62 \<le> d * P + b + 1"
      by (simp add: roundHalfEven_def Let_def q m)
    moreover from False bound assms have "b + 1 < P" by linarith
    ultimately show ?thesis by linarith
  qed
  have "roundHalfEven (n * P) 62 div P = d"
  proof (rule div_nat_eqI)
    show "P * d \<le> roundHalfEven (n * P) 62" using low by (simp add: mult.commute)
    show "roundHalfEven (n * P) 62 < P * Suc d" using up by (simp add: mult.commute)
  qed
  then show ?thesis by (simp add: d_def)
qed

lemma floorQuotient_exact:
  assumes "n < 62 * 2 ^ 48"
  shows "floorQuotient n 62 = n div 62"
proof (cases "n = 0")
  case True
  then show ?thesis by (simp add: floorQuotient_def)
next
  case False
  define s where "s = shiftUp n (62 * 2 ^ 52)"
  from False have "62 * 2 ^ 52 \<le> n * 2 ^ s"
    unfolding s_def by (intro shiftUp_reaches) simp
  moreover from assms have "n * 2 ^ 4 < 62 * 2 ^ 52" by simp
  ultimately have "n * 2 ^ 4 < n * 2 ^ s" by linarith
  then have "(2::nat) ^ 4 < 2 ^ s" by simp
  then have "4 < s" by (simp only: power_strict_increasing_iff) 
  then have "(2::nat) ^ 5 \<le> 2 ^ s" by (intro power_increasing) simp_all
  then have P: "32 \<le> (2::nat) ^ s" by simp
  from assms have "n < 62 * 2 ^ 52" by simp
  with False have "floorQuotient n 62 = roundHalfEven (n * 2 ^ s) 62 div 2 ^ s"
    by (simp add: floorQuotient_def Let_def s_def)
  with P show ?thesis by (simp only: round_scaled_quotient)
qed

lemma encode_loop_double_exact:
  "n < 62 * 2 ^ 48 \<Longrightarrow> encode_loop_double n acc = encode_loop n acc"
proof (induction n arbitrary: acc rule: less_induct)
  case (less n)
  show ?case
  proof (cases "0 < n")
    case True
    then have smaller: "n div 62 < n" by simp
    with less.prems have "n div 62 < 62 * 2 ^ 48" by linarith
    with less.IH [OF smaller] less.prems True show ?thesis
      by (simp add: encode_loop_double_pos encode_loop_pos floorQuotient_exact)
  next
    case False
    then show ?thesis by (simp add: encode_loop_double_zero encode_loop_zero)
  qed
qed

lemma encodeBase62_double_exact:
  "n < 62 * 2 ^ 48 \<Longrightarrow> encodeBase62_double n = encodeBase62 n"
  by (simp add: encodeBase62_double_def encodeBase62_def encode_loop_double_exact)

lemma floorQuotient_at_cex: "floorQuotient 36028797018964120 62 = 581109629338131"
  by (simp add: floorQuotient_def Let_def shiftUp_step shiftUp_stop roundHalfEven_def)

lemma encodeBase62_double_at_cex: "encodeBase62_double 36028797018964120 = ''2F0LaTPQDY''"
proof -
  have "encode_loop_double 36028797018964120 [] =
        encode_loop_double 581109629338131 [BASE62_CHARS ! (36028797018964120 mod 62)]"
    by (simp add: encode_loop_double_pos floorQuotient_at_cex)
  also have "\<dots> = encode_loop 581109629338131 [BASE62_CHARS ! (36028797018964120 mod 62)]"
    by (rule encode_loop_double_exact) simp
  also have "\<dots> = ''2F0LaTPQDY''"
    by (simp add: encode_loop_pos encode_loop_zero BASE62_CHARS_def)
  finally show ?thesis by (simp add: encodeBase62_double_def)
qed

subsection \<open>Facts about the store and about strings\<close>

lemma findOne_None_iff: "findOne P ds = None \<longleftrightarrow> (\<forall>d\<in>set ds. \<not> P d)"
  by (induction ds) auto

lemma findOne_append:
  "findOne P (ds @ [x]) =
     (case findOne P ds of
        Some r \<Rightarrow> Some r
      | None \<Rightarrow> if P x then Some (length ds, x) else None)"
  by (induction ds) (auto split: option.splits)

lemma findOne_unique:
  "distinct (map f ds) \<Longrightarrow> d \<in> set ds \<Longrightarrow>
   \<exists>i. findOne (\<lambda>x. f x = f d) ds = Some (i, d)"
proof (induction ds)
  case Nil
  then show ?case by simp
next
  case (Cons x xs)
  show ?case
  proof (cases "x = d")
    case True
    then show ?thesis by simp
  next
    case False
    with Cons.prems have "d \<in> set xs" "f x \<noteq> f d" "distinct (map f xs)"
      by auto
    with Cons.IH show ?thesis by auto
  qed
qed

lemma trim_fixed:
  assumes "s \<noteq> []" "\<not> isWhiteSpace (hd s)" "\<not> isWhiteSpace (last s)"
  shows "trim s = s"
proof -
  from assms have "dropWhile isWhiteSpace s = s"
    by (cases s) auto
  moreover from assms have "dropWhile isWhiteSpace (rev s) = rev s"
    by (cases "rev s") (auto simp: hd_rev)
  ultimately show ?thesis by (simp add: trim_def)
qed

lemma trim_ends:
  assumes "trim s \<noteq> []"
  shows "\<not> isWhiteSpace (hd (trim s)) \<and> \<not> isWhiteSpace (last (trim s))"
proof -
  let ?t = "dropWhile isWhiteSpace s"
  let ?u = "dropWhile isWhiteSpace (rev ?t)"
  from assms have u: "?u \<noteq> []" by (simp add: trim_def)
  have t: "?t \<noteq> []"
    using u by (metis dropWhile.simps(1) rev.simps(1))
  have "\<not> isWhiteSpace (hd ?u)"
    using u hd_dropWhile by blast
  then have last: "\<not> isWhiteSpace (last (trim s))"
    using u by (simp add: trim_def last_rev)
  have "\<not> isWhiteSpace (hd ?t)"
    using t hd_dropWhile by blast
  moreover have "last ?u = hd ?t"
  proof -
    obtain ws where "rev ?t = ws @ ?u"
      by (metis takeWhile_dropWhile_id)
    with u have "last ?u = last (rev ?t)" by (metis last_appendR)
    with t show ?thesis by (simp add: last_rev)
  qed
  ultimately have "\<not> isWhiteSpace (hd (trim s))"
    using u by (simp add: trim_def hd_rev)
  with last show ?thesis by simp
qed

lemma trim_idem: "trim (trim s) = trim s"
proof (cases "trim s = []")
  case True
  have "trim [] = []" by (simp add: trim_def)
  with True show ?thesis by simp
next
  case False
  with trim_ends [of s] show ?thesis by (simp add: trim_fixed)
qed

lemma isAlnum_not_white: "isAlnum c \<Longrightarrow> \<not> isWhiteSpace c"
  by (auto simp: isAlnum_def isWhiteSpace_def Let_def)

lemma list_all_isAlnum_BASE62: "list_all isAlnum BASE62_CHARS"
  by (simp add: BASE62_CHARS_def isAlnum_def)

lemma isAlnum_digit: "d < 62 \<Longrightarrow> isAlnum (BASE62_CHARS ! d)"
  using list_all_isAlnum_BASE62 by (simp add: list_all_length length_BASE62_CHARS)

lemma encode_loop_alnum:
  "list_all isAlnum acc \<Longrightarrow> list_all isAlnum (encode_loop n acc)"
proof (induction n acc rule: encode_loop.induct)
  case (1 num result)
  show ?case
  proof (cases "0 < num")
    case True
    with "1.IH" "1.prems" show ?thesis
      by (simp add: encode_loop_pos isAlnum_digit)
  next
    case False
    with "1.prems" show ?thesis by (simp add: encode_loop_zero)
  qed
qed

lemma encodeBase62_alnum: "list_all isAlnum (encodeBase62 n)"
  by (simp add: encodeBase62_def encode_loop_alnum isAlnum_digit)

lemma trim_alnum:
  assumes "list_all isAlnum s"
  shows "trim s = s"
proof (cases "s = []")
  case True
  then show ?thesis by (simp add: trim_def)
next
  case False
  with assms have "isAlnum (hd s)" "isAlnum (last s)"
    by (auto simp: list_all_iff)
  with False show ?thesis by (simp add: trim_fixed isAlnum_not_white)
qed

lemma trim_encodeBase62: "trim (encodeBase62 n) = encodeBase62 n"
  by (simp add: trim_alnum encodeBase62_alnum)

subsection \<open>Running the handlers on concrete requests\<close>

lemmas encoder_eval = encodeBase62_def encode_loop_pos encode_loop_zero BASE62_CHARS_def

lemmas string_eval =
  trim_def isWhiteSpace_def startsWith_def isValidUrl_def isValidShortCode_def isAlnum_def

lemmas store_eval =
  Url_findOne_def Url_save_def new_Url_def Url_findByIdAndUpdate_def
  getNextCounterValue_def initializeCounter_def counterValue_def emptyStore_def

lemmas handler_eval =
  shortenHandler_def infoHandler_def redirectHandler_def run_def
  sampleConfig_def sampleURL_def noFaults_def Let_def

lemma startsWith_api_slash: "startsWith code ''api/'' \<Longrightarrow> CHR ''/'' \<in> set code"
proof -
  assume "startsWith code ''api/''"
  then have eq: "take (length ''api/'') code = ''api/''"
    by (simp only: startsWith_def)
  have "CHR ''/'' \<in> set ''api/''" by simp
  with eq have "CHR ''/'' \<in> set (take (length ''api/'') code)"
    by (simp only:)
  then show ?thesis by (rule in_set_takeD)
qed

lemma reserved_not_valid:
  assumes "code = [] \<or> startsWith code ''api/'' \<or> code = ''favicon.ico''"
  shows "\<not> isValidShortCode code"
proof -
  have "\<not> isAlnum CHR ''/''" by (simp add: isAlnum_def)
  then have "startsWith code ''api/'' \<Longrightarrow> \<not> list_all isAlnum code"
    using startsWith_api_slash [of code] by (auto simp: list_all_iff)
  moreover have "\<not> isValidShortCode ''favicon.ico''"
    by (simp add: isValidShortCode_def isAlnum_def)
  moreover have "\<not> isValidShortCode []"
    by (simp add: isValidShortCode_def)
  ultimately show ?thesis
    using assms by (auto simp: isValidShortCode_def)
qed

subsection \<open>Facts about the sequence allocator\<close>




subsection \<open>The effect of each handler on the store\<close>

lemma click_links:
  "map link (urls (Url_findByIdAndUpdate e i st)) = map link (urls st)"
  by (simp add: Url_findByIdAndUpdate_def map_update link_def list_update_same_conv)

lemma click_counter: "counter (Url_findByIdAndUpdate e i st) = counter st"
  by (simp add: Url_findByIdAndUpdate_def)

lemma map_shortCode_link: "map shortCode ds = map snd (map link ds)"
  by (simp add: link_def)

lemma infoHandler_store: "store (infoHandler e st code) = st"
  by (simp add: infoHandler_def Url_findOne_def split: option.splits prod.splits)

lemma redirectHandler_store:
  "map link (urls (store (redirectHandler e st code))) = map link (urls st) \<and>
   counter (store (redirectHandler e st code)) = counter st"
  by (simp add: redirectHandler_def Url_findOne_def click_links click_counter
      split: option.splits prod.splits)

lemma initializeCounter_store:
  "urls (initializeCounter e st) = urls st \<and>
   counterValue st \<le> counterValue (initializeCounter e st)"
  by (simp add: initializeCounter_def counterValue_def split: option.splits)

text \<open>
  The shorten handler leaves the store as it is, or only increments the counter, or
  increments the counter and appends one document; the last is the case of the
  response 201.
\<close>

lemma shortenHandler_store:
  "store (shortenHandler cfg e st longUrl) = st \<and>
     statusOf (response (shortenHandler cfg e st longUrl)) \<noteq> 201
   \<or>
   store (shortenHandler cfg e st longUrl) = st\<lparr>counter := Some (counterValue st + 1)\<rparr> \<and>
     statusOf (response (shortenHandler cfg e st longUrl)) \<noteq> 201
   \<or>
   (\<exists>s. longUrl = JSString s \<and>
      findOne (\<lambda>d. originalUrl d = trim s) (urls st) = None \<and>
      encodeBase62 (counterValue st + 1) \<notin> set (map shortCode (urls st)) \<and>
      store (shortenHandler cfg e st longUrl) =
        \<lparr>urls = urls st @
           [\<lparr>originalUrl = trim s, shortCode = encodeBase62 (counterValue st + 1),
             clicks = 0, createdAt = now e\<rparr>],
         counter = Some (counterValue st + 1)\<rparr> \<and>
      response (shortenHandler cfg e st longUrl) =
        Json 201 (ShortenBody (BACKEND_URL cfg @ ''/'' @ encodeBase62 (counterValue st + 1))
          (encodeBase62 (counterValue st + 1)) (trim s) ''Short URL created successfully''))"
proof (cases longUrl)
  case JSUndefined
  then show ?thesis by (simp add: shortenHandler_def)
next
  case JSOther
  then show ?thesis by (simp add: shortenHandler_def)
next
  case (JSString s)
  show ?thesis
    unfolding JSString
    by (auto simp: shortenHandler_def Let_def Url_findOne_def Url_save_def new_Url_def
        getNextCounterValue_def counterValue_def trim_idem trim_encodeBase62
        split: sum.splits option.splits prod.splits if_splits)
qed

subsection \<open>What every reachable store satisfies\<close>

lemma allocated_emptyStore: "allocated emptyStore"
  by (simp add: allocated_def emptyStore_def)

lemma allocated_mono:
  assumes "allocated st" "map link (urls st') = map link (urls st)"
    "counterValue st \<le> counterValue st'"
  shows "allocated st'"
proof -
  from assms(2) have eq: "map shortCode (urls st') = map shortCode (urls st)"
    by (simp add: map_shortCode_link)
  from assms(3)
  have sub: "encodeBase62 ` {n. n \<le> counterValue st} \<subseteq>
             encodeBase62 ` {n. n \<le> counterValue st'}"
    by auto
  from assms(1) have d: "distinct (map shortCode (urls st))"
    and s: "set (map shortCode (urls st)) \<subseteq> encodeBase62 ` {n. n \<le> counterValue st}"
    by (simp_all add: allocated_def)
  from s sub
  have "set (map shortCode (urls st)) \<subseteq> encodeBase62 ` {n. n \<le> counterValue st'}"
    by (rule subset_trans)
  with d show ?thesis
    unfolding allocated_def eq by simp
qed

lemma allocated_step: "allocated st \<Longrightarrow> allocated (step cfg st x)"
proof -
  assume a: "allocated st"
  obtain e op where x: "x = (e, op)" by (cases x)
  show ?thesis
  proof (cases op)
    case Startup
    with a x initializeCounter_store [of e st] show ?thesis
      by (simp add: allocated_mono)
  next
    case (Info code)
    with a x show ?thesis by (simp add: infoHandler_store)
  next
    case (Resolve code)
    with a x redirectHandler_store [of e st code] show ?thesis
      by (simp add: allocated_mono counterValue_def)
  next
    case (Shorten longUrl)
    let ?o = "shortenHandler cfg e st longUrl"
    let ?v = "counterValue st + 1"
    consider "store ?o = st" | "store ?o = st\<lparr>counter := Some ?v\<rparr>"
      | "encodeBase62 ?v \<notin> set (map shortCode (urls st))"
        "\<exists>d. shortCode d = encodeBase62 ?v \<and>
           store ?o = \<lparr>urls = urls st @ [d], counter = Some ?v\<rparr>"
      using shortenHandler_store [of cfg e st longUrl] by auto
    then have "allocated (store ?o)"
    proof cases
      case 1
      with a show ?thesis by simp
    next
      case 2
      with a show ?thesis by (simp add: allocated_mono counterValue_def)
    next
      case 3
      then obtain d where d: "shortCode d = encodeBase62 ?v"
        "store ?o = \<lparr>urls = urls st @ [d], counter = Some ?v\<rparr>"
        by blast
      have "encodeBase62 ` {n. n \<le> counterValue st} \<subseteq> encodeBase62 ` {n. n \<le> ?v}"
        by auto
      with a 3(1) d show ?thesis
        unfolding allocated_def by (auto simp: counterValue_def)
    qed
    with x Shorten show ?thesis by simp
  qed
qed

lemma allocated_run: "allocated st \<Longrightarrow> allocated (run cfg st ops)"
  unfolding run_def by (induction ops arbitrary: st) (simp_all add: allocated_step)

lemma run_snoc: "run cfg st (ops @ [x]) = step cfg (run cfg st ops) x"
  by (simp add: run_def)

text \<open>In such a store the next code of the counter is not taken.\<close>

lemma allocated_next_fresh:
  assumes "allocated st"
  shows "encodeBase62 (counterValue st + 1) \<notin> set (map shortCode (urls st))"
proof
  assume "encodeBase62 (counterValue st + 1) \<in> set (map shortCode (urls st))"
  with assms obtain n where "n \<le> counterValue st"
    "encodeBase62 (counterValue st + 1) = encodeBase62 n"
    unfolding allocated_def by blast
  then show False using encodeBase62_inj [of "counterValue st + 1" n] by simp
qed

subsection \<open>The two successful outcomes of the shorten handler\<close>

lemma trim_Nil: "trim [] = []"
  by (simp add: trim_def)

lemma shortenHandler_existing:
  assumes "trim u \<noteq> []" "isValidUrl cfg (trim u)" "\<not> findFails e"
    "findOne (\<lambda>d. originalUrl d = trim u) (urls st) = Some (i, existingUrl)"
  shows "shortenHandler cfg e st (JSString u) =
    \<lparr>response = Json 200
       (ShortenBody (BACKEND_URL cfg @ ''/'' @ shortCode existingUrl)
          (shortCode existingUrl) (trim u) ''URL already exists''),
     dbCalls = [UrlFindOneByOriginalUrl (trim u)], store = st\<rparr>"
proof -
  from assms(1) have "u \<noteq> []" using trim_Nil by auto
  with assms show ?thesis
    by (simp add: shortenHandler_def Let_def Url_findOne_def)
qed

lemma shortenHandler_created:
  assumes "trim u \<noteq> []" "isValidUrl cfg (trim u)"
    "\<not> findFails e" "\<not> counterFails e" "\<not> saveFails e"
    "findOne (\<lambda>d. originalUrl d = trim u) (urls st) = None"
    "encodeBase62 (counterValue st + 1) \<notin> set (map shortCode (urls st))"
  shows "shortenHandler cfg e st (JSString u) =
    \<lparr>response = Json 201
       (ShortenBody (BACKEND_URL cfg @ ''/'' @ encodeBase62 (counterValue st + 1))
          (encodeBase62 (counterValue st + 1)) (trim u) ''Short URL created successfully''),
     dbCalls = [UrlFindOneByOriginalUrl (trim u), CounterFindOneAndUpdate,
                UrlSave (trim u) (encodeBase62 (counterValue st + 1))],
     store = \<lparr>urls = urls st @
                [\<lparr>originalUrl = trim u, shortCode = encodeBase62 (counterValue st + 1),
                  clicks = 0, createdAt = now e\<rparr>],
              counter = Some (counterValue st + 1)\<rparr>\<rparr>"
proof -
  from assms(1) have u: "u \<noteq> []" using trim_Nil by auto
  have next_value: "getNextCounterValue e st =
      Inr (counterValue st + 1, st\<lparr>counter := Some (counterValue st + 1)\<rparr>)"
    using assms(4)
    by (simp add: getNextCounterValue_def counterValue_def Let_def split: option.splits)
  have saved: "Url_save e (new_Url e (trim u) (encodeBase62 (counterValue st + 1)))
      (st\<lparr>counter := Some (counterValue st + 1)\<rparr>) =
      Inr \<lparr>urls = urls st @
                [\<lparr>originalUrl = trim u, shortCode = encodeBase62 (counterValue st + 1),
                  clicks = 0, createdAt = now e\<rparr>],
              counter = Some (counterValue st + 1)\<rparr>"
    using assms(1,5,7)
    by (simp add: Url_save_def new_Url_def trim_idem trim_encodeBase62 encodeBase62_nonempty)
  show ?thesis
    using u assms(2,3,6) next_value saved
    by (simp add: shortenHandler_def Let_def Url_findOne_def)
qed

subsection \<open>Where a stored document comes from\<close>

lemma link_history:
  "(url, code) \<in> set (map link (urls (run cfg emptyStore ops))) \<Longrightarrow>
   \<exists>ops1 e u ops2.
     ops = ops1 @ (e, Shorten (JSString u)) # ops2 \<and>
     url = trim u \<and>
     response (shortenHandler cfg e (run cfg emptyStore ops1) (JSString u)) =
       Json 201 (ShortenBody (BACKEND_URL cfg @ ''/'' @ code) code (trim u)
         ''Short URL created successfully'')"
proof (induction ops arbitrary: url code rule: rev_induct)
  case Nil
  then show ?case by (simp add: run_def emptyStore_def)
next
  case (snoc x ops)
  let ?st = "run cfg emptyStore ops"
  obtain e op where x: "x = (e, op)" by (cases x)
  have old: "(url, code) \<in> set (map link (urls ?st)) \<Longrightarrow> ?case"
  proof -
    assume "(url, code) \<in> set (map link (urls ?st))"
    then obtain ops1 e1 u ops2 where
      "ops = ops1 @ (e1, Shorten (JSString u)) # ops2" "url = trim u"
      "response (shortenHandler cfg e1 (run cfg emptyStore ops1) (JSString u)) =
         Json 201 (ShortenBody (BACKEND_URL cfg @ ''/'' @ code) code (trim u)
           ''Short URL created successfully'')"
      using snoc.IH by blast
    then have "ops @ [x] = ops1 @ (e1, Shorten (JSString u)) # (ops2 @ [x])" by simp
    with \<open>url = trim u\<close>
      \<open>response (shortenHandler cfg e1 (run cfg emptyStore ops1) (JSString u)) =
         Json 201 (ShortenBody (BACKEND_URL cfg @ ''/'' @ code) code (trim u)
           ''Short URL created successfully'')\<close>
    show ?case by blast
  qed
  show ?case
  proof (cases op)
    case Startup
    with snoc.prems x initializeCounter_store [of e ?st] old show ?thesis
      by (simp add: run_snoc)
  next
    case (Info c)
    with snoc.prems x old show ?thesis
      by (simp add: run_snoc infoHandler_store)
  next
    case (Resolve c)
    with snoc.prems x redirectHandler_store [of e ?st c] old show ?thesis
      by (simp add: run_snoc)
  next
    case (Shorten longUrl)
    let ?o = "shortenHandler cfg e ?st longUrl"
    let ?v = "counterValue ?st + 1"
    from snoc.prems x Shorten
    have mem: "(url, code) \<in> set (map link (urls (store ?o)))"
      by (simp add: run_snoc)
    consider "urls (store ?o) = urls ?st"
      | s where "longUrl = JSString s"
        "store ?o = \<lparr>urls = urls ?st @
           [\<lparr>originalUrl = trim s, shortCode = encodeBase62 ?v,
             clicks = 0, createdAt = now e\<rparr>], counter = Some ?v\<rparr>"
        "response ?o = Json 201 (ShortenBody (BACKEND_URL cfg @ ''/'' @ encodeBase62 ?v)
           (encodeBase62 ?v) (trim s) ''Short URL created successfully'')"
      using shortenHandler_store [of cfg e ?st longUrl] by auto
    then show ?thesis
    proof cases
      case 1
      with mem old show ?thesis by simp
    next
      case 2
      from mem 2(2)
      have "(url, code) \<in> set (map link (urls ?st)) \<or>
            (url, code) = (trim s, encodeBase62 ?v)"
        by (auto simp: link_def)
      then show ?thesis
      proof
        assume "(url, code) \<in> set (map link (urls ?st))"
        then show ?thesis by (rule old)
      next
        assume new: "(url, code) = (trim s, encodeBase62 ?v)"
        have "ops @ [x] = ops @ (e, Shorten (JSString s)) # []"
          using x Shorten 2(1) by simp
        moreover have "url = trim s" using new by simp
        moreover have "response (shortenHandler cfg e (run cfg emptyStore ops) (JSString s)) =
            Json 201 (ShortenBody (BACKEND_URL cfg @ ''/'' @ code) code (trim s)
              ''Short URL created successfully'')"
          using 2(1,3) new by simp
        ultimately show ?thesis by blast
      qed
    qed
  qed
qed

subsection \<open>The outcomes of the redirect handler for a well-formed code\<close>

lemma valid_not_reserved:
  "isValidShortCode code \<Longrightarrow>
   \<not> (code = [] \<or> startsWith code ''api/'' \<or> code = ''favicon.ico'')"
  using reserved_not_valid [of code] by blast

lemma redirectHandler_found:
  assumes "isValidShortCode code" "\<not> findFails e"
    "findOne (\<lambda>d. shortCode d = code) (urls st) = Some (i, urlDoc)"
  shows "response (redirectHandler e st code) = StatusRedirect 301 (originalUrl urlDoc)"
  using assms valid_not_reserved [of code]
  by (simp add: redirectHandler_def Url_findOne_def)

lemma redirectHandler_missing:
  assumes "isValidShortCode code" "\<not> findFails e"
    "code \<notin> set (map shortCode (urls st))"
  shows "redirectHandler e st code =
    \<lparr>response = Json 404 (NotFoundBody ''Short URL not found'' code),
     dbCalls = [UrlFindOneByShortCode code], store = st\<rparr>"
proof -
  from assms(3) have "findOne (\<lambda>d. shortCode d = code) (urls st) = None"
    by (auto simp: findOne_None_iff)
  with assms(1,2) valid_not_reserved [of code] show ?thesis
    by (simp add: redirectHandler_def Url_findOne_def)
qed

subsection \<open>The codes of the integers below \<open>62 ^ 10\<close> pass the format check\<close>

lemma encode_loop_length:
  "n < 62 ^ k \<Longrightarrow> length (encode_loop n acc) \<le> k + length acc"
proof (induction k arbitrary: n acc)
  case 0
  then show ?case by (simp add: encode_loop_zero)
next
  case (Suc k)
  show ?case
  proof (cases "0 < n")
    case True
    from Suc.prems have "n div 62 < 62 ^ k"
      by (simp add: less_mult_imp_div_less mult.commute)
    then have "length (encode_loop (n div 62) (BASE62_CHARS ! (n mod 62) # acc)) \<le>
        k + length (BASE62_CHARS ! (n mod 62) # acc)"
      by (rule Suc.IH)
    with True show ?thesis by (simp add: encode_loop_pos)
  next
    case False
    then show ?thesis by (simp add: encode_loop_zero)
  qed
qed

lemma encodeBase62_valid: "n < 62 ^ 10 \<Longrightarrow> isValidShortCode (encodeBase62 n)"
proof -
  assume "n < 62 ^ 10"
  then have "length (encode_loop n []) \<le> 10"
    using encode_loop_length [of n 10 "[]"] by simp
  then have "length (encodeBase62 n) \<le> 10"
    by (simp add: encodeBase62_def)
  moreover have "1 \<le> length (encodeBase62 n)"
    using encodeBase62_nonempty [of n] by (cases "encodeBase62 n") simp_all
  ultimately show ?thesis
    using encodeBase62_nonempty [of n] encodeBase62_alnum [of n]
    by (simp add: isValidShortCode_def)
qed

lemma stored_codes_valid:
  assumes "allocated st" "counterValue st < 62 ^ 10" "d \<in> set (urls st)"
  shows "isValidShortCode (shortCode d)"
proof -
  from assms(1,3) obtain n where "n \<le> counterValue st" "shortCode d = encodeBase62 n"
    unfolding allocated_def by auto
  with assms(2) show ?thesis by (simp add: encodeBase62_valid)
qed

section \<open>The claims\<close>

text \<open>
  C1. Starting from the empty store, after any sequence of start-ups and of shorten,
  resolve and info requests, whatever calls to the store are rejected on the way, no two
  stored documents have the same short code.
\<close>

theorem C1_short_codes_unique:
  "distinct (map shortCode (urls (run cfg emptyStore ops)))"
  using allocated_run [OF allocated_emptyStore, of cfg ops]
  by (simp add: allocated_def)

theorem C1_short_codes_unique_witness:
  "map shortCode (urls (run sampleConfig emptyStore
     [(noFaults, Startup),
      (noFaults, Shorten (JSString ''https://example.com/a/b/c'')),
      (noFaults, Shorten (JSString ''  https://example.com/a/b/c'')),
      (noFaults, Resolve ''q0V''),
      (noFaults\<lparr>saveFails := True\<rparr>, Shorten (JSString ''http://b.example'')),
      (noFaults, Shorten (JSString ''http://b.example'')),
      (noFaults, Info ''q0X'')])) = [''q0V'', ''q0X''] \<and>
   distinct (map shortCode (urls (run sampleConfig emptyStore
     [(noFaults, Startup),
      (noFaults, Shorten (JSString ''https://example.com/a/b/c'')),
      (noFaults, Shorten (JSString ''  https://example.com/a/b/c'')),
      (noFaults, Resolve ''q0V''),
      (noFaults\<lparr>saveFails := True\<rparr>, Shorten (JSString ''http://b.example'')),
      (noFaults, Shorten (JSString ''http://b.example'')),
      (noFaults, Info ''q0X'')])))"
proof -
  let ?ops = "[(noFaults, Startup),
      (noFaults, Shorten (JSString ''https://example.com/a/b/c'')),
      (noFaults, Shorten (JSString ''  https://example.com/a/b/c'')),
      (noFaults, Resolve ''q0V''),
      (noFaults\<lparr>saveFails := True\<rparr>, Shorten (JSString ''http://b.example'')),
      (noFaults, Shorten (JSString ''http://b.example'')),
      (noFaults, Info ''q0X'')]"
  have "map shortCode (urls (run sampleConfig emptyStore ?ops)) = [''q0V'', ''q0X'']"
    by (simp add: handler_eval store_eval string_eval encoder_eval)
  with C1_short_codes_unique [of sampleConfig ?ops] show ?thesis by blast
qed

text \<open>
  C2, as the code has it. For every non-negative integer \<open>n\<close> below \<open>2 ^ 53\<close>, decoding
  the code that the program computes for \<open>n\<close> gives \<open>n\<close> back, and on these integers the
  encoder is injective: two different integers never have the same code.
\<close>

theorem C2_encode_decode_injective:
  "(n < 2 ^ 53 \<longrightarrow> decodeBase62 (encodeBase62_double n) = Some n) \<and>
   (n1 < 2 ^ 53 \<and> n2 < 2 ^ 53 \<and> n1 \<noteq> n2 \<longrightarrow>
      encodeBase62_double n1 \<noteq> encodeBase62_double n2)"
proof -
  have below: "m < 62 * 2 ^ 48" if "m < 2 ^ 53" for m :: nat
    using that by simp
  have "decodeBase62 (encodeBase62_double n) = Some n" if "n < 2 ^ 53"
    using below [OF that] by (simp add: encodeBase62_double_exact decode_encode)
  moreover have "encodeBase62_double n1 \<noteq> encodeBase62_double n2"
    if "n1 < 2 ^ 53" "n2 < 2 ^ 53" "n1 \<noteq> n2"
    using below [OF that(1)] below [OF that(2)] that(3) encodeBase62_inj [of n1 n2]
    by (auto simp: encodeBase62_double_exact)
  ultimately show ?thesis by blast
qed

theorem C2_encode_decode_injective_witness:
  "((100001 :: nat) < 2 ^ 53 \<and> (100002 :: nat) < 2 ^ 53 \<and> (100001 :: nat) \<noteq> 100002) \<and>
   decodeBase62 (encodeBase62_double 100001) = Some 100001 \<and>
   encodeBase62_double 100001 \<noteq> encodeBase62_double 100002"
proof -
  have h: "(100001 :: nat) < 2 ^ 53 \<and> (100002 :: nat) < 2 ^ 53 \<and> (100001 :: nat) \<noteq> 100002"
    by simp
  with C2_encode_decode_injective [of 100001 100001 100002] show ?thesis by blast
qed

text \<open>
  The claim as the spec states it, for every non-negative integer, fails above \<open>2 ^ 53\<close>.
  The integer \<open>2 ^ 55 + 152 = 36028797018964120\<close> is a multiple of 8, so a double holds it;
  its quotient by 62 has the fractional part \<open>60 / 62\<close>, and at that size the nearest
  double is the next integer. The code that the program computes decodes to the integer
  62 above.
\<close>

theorem C2_encode_decode_injective_counterexample:
  "(36028797018964120 :: nat) = 2 ^ 55 + 152 \<and>
   encodeBase62_double 36028797018964120 = ''2F0LaTPQDY'' \<and>
   decodeBase62 (encodeBase62_double 36028797018964120) = Some 36028797018964182 \<and>
   decodeBase62 (encodeBase62_double 36028797018964120) \<noteq> Some 36028797018964120"
proof -
  have "decodeBase62 ''2F0LaTPQDY'' = Some 36028797018964182"
    by (simp add: decodeBase62_def BASE62_CHARS_def)
  then show ?thesis by (simp add: encodeBase62_double_at_cex)
qed

text \<open>
  C3. From any store reached from the empty one: shortening a valid URL twice, with no
  call to the store rejected, gives the same short code both times. The second answer
  has status 200 and the message "URL already exists", and changes nothing in the
  store; the first has status 201 when the URL was not stored before.
\<close>

theorem C3_idempotent_reshortening:
  assumes "trim u \<noteq> []" "isValidUrl cfg (trim u)"
    "\<not> findFails e1" "\<not> counterFails e1" "\<not> saveFails e1" "\<not> findFails e2"
  shows "\<exists>code.
    shortCodeOf (response (shortenHandler cfg e1 (run cfg emptyStore ops) (JSString u))) =
      Some code \<and>
    (findOne (\<lambda>d. originalUrl d = trim u) (urls (run cfg emptyStore ops)) = None \<longrightarrow>
       response (shortenHandler cfg e1 (run cfg emptyStore ops) (JSString u)) =
         Json 201 (ShortenBody (BACKEND_URL cfg @ ''/'' @ code) code (trim u)
           ''Short URL created successfully'')) \<and>
    response (shortenHandler cfg e2
        (store (shortenHandler cfg e1 (run cfg emptyStore ops) (JSString u))) (JSString u)) =
      Json 200 (ShortenBody (BACKEND_URL cfg @ ''/'' @ code) code (trim u)
        ''URL already exists'') \<and>
    store (shortenHandler cfg e2
        (store (shortenHandler cfg e1 (run cfg emptyStore ops) (JSString u))) (JSString u)) =
      store (shortenHandler cfg e1 (run cfg emptyStore ops) (JSString u))"
proof -
  let ?st = "run cfg emptyStore ops"
  let ?P = "\<lambda>d. originalUrl d = trim u"
  have inv: "allocated ?st"
    by (rule allocated_run [OF allocated_emptyStore])
  show ?thesis
  proof (cases "findOne ?P (urls ?st)")
    case (Some r)
    obtain i existingUrl where r: "r = (i, existingUrl)" by (cases r)
    with Some have found: "findOne ?P (urls ?st) = Some (i, existingUrl)" by simp
    have first: "shortenHandler cfg e1 ?st (JSString u) =
      \<lparr>response = Json 200
         (ShortenBody (BACKEND_URL cfg @ ''/'' @ shortCode existingUrl)
            (shortCode existingUrl) (trim u) ''URL already exists''),
       dbCalls = [UrlFindOneByOriginalUrl (trim u)], store = ?st\<rparr>"
      using assms(1,2,3) found by (rule shortenHandler_existing)
    have second: "shortenHandler cfg e2 ?st (JSString u) =
      \<lparr>response = Json 200
         (ShortenBody (BACKEND_URL cfg @ ''/'' @ shortCode existingUrl)
            (shortCode existingUrl) (trim u) ''URL already exists''),
       dbCalls = [UrlFindOneByOriginalUrl (trim u)], store = ?st\<rparr>"
      using assms(1,2,6) found by (rule shortenHandler_existing)
    show ?thesis
      by (rule exI [of _ "shortCode existingUrl"]) (simp add: first second found)
  next
    case None
    let ?code = "encodeBase62 (counterValue ?st + 1)"
    let ?d = "\<lparr>originalUrl = trim u, shortCode = ?code, clicks = 0, createdAt = now e1\<rparr>"
    let ?st' = "\<lparr>urls = urls ?st @ [?d], counter = Some (counterValue ?st + 1)\<rparr>"
    have fresh: "?code \<notin> set (map shortCode (urls ?st))"
      using inv by (rule allocated_next_fresh)
    have first: "shortenHandler cfg e1 ?st (JSString u) =
      \<lparr>response = Json 201
         (ShortenBody (BACKEND_URL cfg @ ''/'' @ ?code) ?code (trim u)
            ''Short URL created successfully''),
       dbCalls = [UrlFindOneByOriginalUrl (trim u), CounterFindOneAndUpdate,
                  UrlSave (trim u) ?code],
       store = ?st'\<rparr>"
      using assms(1,2,3,4,5) None fresh by (rule shortenHandler_created)
    have "findOne ?P (urls ?st') = Some (length (urls ?st), ?d)"
      using None by (simp add: findOne_append)
    with assms(1,2,6)
    have second: "shortenHandler cfg e2 ?st' (JSString u) =
      \<lparr>response = Json 200
         (ShortenBody (BACKEND_URL cfg @ ''/'' @ shortCode ?d) (shortCode ?d) (trim u)
            ''URL already exists''),
       dbCalls = [UrlFindOneByOriginalUrl (trim u)], store = ?st'\<rparr>"
      by (rule shortenHandler_existing)
    show ?thesis
      apply (rule exI [of _ ?code])
      apply (simp only: first second outcome.select_convs url_doc.select_convs)
      apply simp
      done
  qed
qed

theorem C3_idempotent_reshortening_witness:
  "(trim ''https://example.com/a/b/c'' \<noteq> [] \<and>
    isValidUrl sampleConfig (trim ''https://example.com/a/b/c'') \<and>
    \<not> findFails noFaults \<and> \<not> counterFails noFaults \<and> \<not> saveFails noFaults \<and>
    findOne (\<lambda>d. originalUrl d = trim ''https://example.com/a/b/c'')
      (urls (run sampleConfig emptyStore [(noFaults, Startup)])) = None) \<and>
   response (shortenHandler sampleConfig noFaults
      (run sampleConfig emptyStore [(noFaults, Startup)])
      (JSString ''https://example.com/a/b/c'')) =
     Json 201 (ShortenBody ''http://localhost:5080/q0V'' ''q0V'' ''https://example.com/a/b/c''
       ''Short URL created successfully'') \<and>
   response (shortenHandler sampleConfig noFaults
      (store (shortenHandler sampleConfig noFaults
         (run sampleConfig emptyStore [(noFaults, Startup)])
         (JSString ''https://example.com/a/b/c'')))
      (JSString ''https://example.com/a/b/c'')) =
     Json 200 (ShortenBody ''http://localhost:5080/q0V'' ''q0V'' ''https://example.com/a/b/c''
       ''URL already exists'')"
proof -
  let ?u = "''https://example.com/a/b/c''"
  let ?st = "run sampleConfig emptyStore [(noFaults, Startup)]"
  let ?first = "shortenHandler sampleConfig noFaults ?st (JSString ?u)"
  have h1: "trim ?u \<noteq> []" and h2: "isValidUrl sampleConfig (trim ?u)"
    by (simp_all add: string_eval sampleConfig_def sampleURL_def)
  have h3: "\<not> findFails noFaults" and h4: "\<not> counterFails noFaults"
    and h5: "\<not> saveFails noFaults"
    by (simp_all add: noFaults_def)
  have h6: "findOne (\<lambda>d. originalUrl d = trim ?u) (urls ?st) = None"
    by (simp add: handler_eval store_eval)
  have first: "shortCodeOf (response ?first) = Some ''q0V''"
    by (simp add: handler_eval store_eval string_eval encoder_eval)
  have backend: "BACKEND_URL sampleConfig @ ''/'' @ ''q0V'' = ''http://localhost:5080/q0V''"
    and trimmed: "trim ?u = ?u"
    by (simp_all add: sampleConfig_def string_eval)
  from C3_idempotent_reshortening [OF h1 h2 h3 h4 h5 h3, of "[(noFaults, Startup)]"] h6 first
  have "response ?first =
      Json 201 (ShortenBody (BACKEND_URL sampleConfig @ ''/'' @ ''q0V'') ''q0V'' (trim ?u)
        ''Short URL created successfully'') \<and>
    response (shortenHandler sampleConfig noFaults (store ?first) (JSString ?u)) =
      Json 200 (ShortenBody (BACKEND_URL sampleConfig @ ''/'' @ ''q0V'') ''q0V'' (trim ?u)
        ''URL already exists'')"
    by auto
  then have "response ?first =
      Json 201 (ShortenBody ''http://localhost:5080/q0V'' ''q0V'' ?u
        ''Short URL created successfully'') \<and>
    response (shortenHandler sampleConfig noFaults (store ?first) (JSString ?u)) =
      Json 200 (ShortenBody ''http://localhost:5080/q0V'' ''q0V'' ?u ''URL already exists'')"
    by (simp only: backend trimmed)
  with h1 h2 h3 h4 h5 h6 show ?thesis by blast
qed




text \<open>
  C5, as the code has it. A well-formed code with no stored document is answered 404
  "Short URL not found". For a document of a store reached from the empty one, with a
  well-formed short code, the handler redirects (status 301 set) to the stored
  \<open>originalUrl\<close>; that address is the trimmed \<open>longUrl\<close> of the shorten request that was
  answered 201 with this short code. Both when the lookup is not rejected.
\<close>

theorem C5_resolution:
  "(isValidShortCode code \<and> \<not> findFails e \<and> code \<notin> set (map shortCode (urls st)) \<longrightarrow>
      response (redirectHandler e st code) =
        Json 404 (NotFoundBody ''Short URL not found'' code)) \<and>
   (d \<in> set (urls (run cfg emptyStore ops)) \<and> isValidShortCode (shortCode d) \<and>
    \<not> findFails e \<longrightarrow>
      response (redirectHandler e (run cfg emptyStore ops) (shortCode d)) =
        StatusRedirect 301 (originalUrl d) \<and>
      (\<exists>ops1 e1 u ops2.
         ops = ops1 @ (e1, Shorten (JSString u)) # ops2 \<and>
         response (shortenHandler cfg e1 (run cfg emptyStore ops1) (JSString u)) =
           Json 201 (ShortenBody (BACKEND_URL cfg @ ''/'' @ shortCode d) (shortCode d)
             (trim u) ''Short URL created successfully'') \<and>
         originalUrl d = trim u))"
proof (intro conjI impI)
  assume "isValidShortCode code \<and> \<not> findFails e \<and> code \<notin> set (map shortCode (urls st))"
  then show "response (redirectHandler e st code) =
      Json 404 (NotFoundBody ''Short URL not found'' code)"
    by (simp add: redirectHandler_missing)
next
  let ?st = "run cfg emptyStore ops"
  assume a: "d \<in> set (urls ?st) \<and> isValidShortCode (shortCode d) \<and> \<not> findFails e"
  have "distinct (map shortCode (urls ?st))"
    using allocated_run [OF allocated_emptyStore, of cfg ops] by (simp add: allocated_def)
  with a obtain i where "findOne (\<lambda>x. shortCode x = shortCode d) (urls ?st) = Some (i, d)"
    using findOne_unique [of shortCode "urls ?st" d] by blast
  with a show "response (redirectHandler e ?st (shortCode d)) =
      StatusRedirect 301 (originalUrl d)"
    by (simp add: redirectHandler_found)
next
  let ?st = "run cfg emptyStore ops"
  assume a: "d \<in> set (urls ?st) \<and> isValidShortCode (shortCode d) \<and> \<not> findFails e"
  then have "(originalUrl d, shortCode d) \<in> set (map link (urls ?st))"
    by (auto simp: link_def)
  then obtain ops1 e1 u ops2 where
    "ops = ops1 @ (e1, Shorten (JSString u)) # ops2" "originalUrl d = trim u"
    "response (shortenHandler cfg e1 (run cfg emptyStore ops1) (JSString u)) =
       Json 201 (ShortenBody (BACKEND_URL cfg @ ''/'' @ shortCode d) (shortCode d) (trim u)
         ''Short URL created successfully'')"
    using link_history [of "originalUrl d" "shortCode d" cfg ops] by blast
  then show "\<exists>ops1 e1 u ops2.
         ops = ops1 @ (e1, Shorten (JSString u)) # ops2 \<and>
         response (shortenHandler cfg e1 (run cfg emptyStore ops1) (JSString u)) =
           Json 201 (ShortenBody (BACKEND_URL cfg @ ''/'' @ shortCode d) (shortCode d)
             (trim u) ''Short URL created successfully'') \<and>
         originalUrl d = trim u"
    by blast
qed

theorem C5_resolution_witness:
  "(isValidShortCode ''q0W'' \<and> \<not> findFails noFaults \<and>
    ''q0W'' \<notin> set (map shortCode (urls (run sampleConfig emptyStore
       [(noFaults, Startup), (noFaults, Shorten (JSString '' https://example.com/a ''))]))) \<and>
    \<lparr>originalUrl = ''https://example.com/a'', shortCode = ''q0V'', clicks = 0,
      createdAt = 0\<rparr> \<in> set (urls (run sampleConfig emptyStore
       [(noFaults, Startup), (noFaults, Shorten (JSString '' https://example.com/a ''))])) \<and>
    isValidShortCode ''q0V'') \<and>
   response (redirectHandler noFaults (run sampleConfig emptyStore
       [(noFaults, Startup), (noFaults, Shorten (JSString '' https://example.com/a ''))])
     ''q0W'') = Json 404 (NotFoundBody ''Short URL not found'' ''q0W'') \<and>
   response (redirectHandler noFaults (run sampleConfig emptyStore
       [(noFaults, Startup), (noFaults, Shorten (JSString '' https://example.com/a ''))])
     ''q0V'') = StatusRedirect 301 ''https://example.com/a''"
proof -
  let ?ops = "[(noFaults, Startup), (noFaults, Shorten (JSString '' https://example.com/a ''))]"
  let ?st = "run sampleConfig emptyStore ?ops"
  let ?d = "\<lparr>originalUrl = ''https://example.com/a'', shortCode = ''q0V'', clicks = 0,
             createdAt = 0\<rparr>"
  have st: "urls ?st = [?d]"
    by (simp add: handler_eval store_eval string_eval encoder_eval)
  have h1: "isValidShortCode ''q0W'' \<and> \<not> findFails noFaults \<and>
      ''q0W'' \<notin> set (map shortCode (urls ?st))"
    unfolding st by (simp add: string_eval noFaults_def)
  have h2: "?d \<in> set (urls ?st) \<and> isValidShortCode (shortCode ?d) \<and> \<not> findFails noFaults"
    unfolding st by (simp add: string_eval noFaults_def)
  from C5_resolution [of "''q0W''" noFaults ?st ?d sampleConfig ?ops] h1 h2
  have "response (redirectHandler noFaults ?st ''q0W'') =
      Json 404 (NotFoundBody ''Short URL not found'' ''q0W'') \<and>
    response (redirectHandler noFaults ?st (shortCode ?d)) =
      StatusRedirect 301 (originalUrl ?d)"
    by blast
  then have "response (redirectHandler noFaults ?st ''q0W'') =
      Json 404 (NotFoundBody ''Short URL not found'' ''q0W'') \<and>
    response (redirectHandler noFaults ?st ''q0V'') =
      StatusRedirect 301 ''https://example.com/a''"
    by (simp only: url_doc.select_convs)
  with h1 h2 show ?thesis by (simp only: url_doc.select_convs) blast
qed

text \<open>
  The claim as the spec states it fails where the \<open>longUrl\<close> has white space around
  it: the request is accepted, and the redirect goes to the trimmed address, not to the
  string that was given.
\<close>

theorem C5_resolution_counterexample:
  "response (shortenHandler sampleConfig noFaults (initializeCounter noFaults emptyStore)
      (JSString '' https://example.com/a '')) =
     Json 201 (ShortenBody ''http://localhost:5080/q0V'' ''q0V'' ''https://example.com/a''
       ''Short URL created successfully'') \<and>
   response (redirectHandler noFaults
      (store (shortenHandler sampleConfig noFaults (initializeCounter noFaults emptyStore)
         (JSString '' https://example.com/a ''))) ''q0V'') =
     StatusRedirect 301 ''https://example.com/a'' \<and>
   redirectTarget (response (redirectHandler noFaults
      (store (shortenHandler sampleConfig noFaults (initializeCounter noFaults emptyStore)
         (JSString '' https://example.com/a ''))) ''q0V'')) \<noteq>
     Some '' https://example.com/a ''"
  by (simp add: handler_eval store_eval string_eval encoder_eval)

text \<open>
  C6, as the code has it. The handler trims \<open>longUrl\<close> before it validates it. A request
  whose \<open>longUrl\<close> is the empty string, or whose trimmed \<open>longUrl\<close> the URL constructor
  rejects or parses with a protocol other than \<open>http:\<close> and \<open>https:\<close>, is answered with
  status 400 and an error body; the handler makes no call to the store, and the counter
  and the stored documents are as they were.
\<close>

theorem C6_invalid_url_no_mutation:
  assumes "s = [] \<or> newURL cfg (trim s) = None \<or>
           (newURL cfg (trim s) \<noteq> Some ''http:'' \<and> newURL cfg (trim s) \<noteq> Some ''https:'')"
  shows "response (shortenHandler cfg e st (JSString s)) \<in>
           {Json 400 (ErrorBody ''Long URL is required and must be a string''),
            Json 400 (ErrorBody ''Invalid URL format. Please include http:// or https://'')} \<and>
         dbCalls (shortenHandler cfg e st (JSString s)) = [] \<and>
         store (shortenHandler cfg e st (JSString s)) = st"
proof (cases "s = []")
  case True
  then show ?thesis by (simp add: shortenHandler_def)
next
  case False
  with assms have "\<not> isValidUrl cfg (trim s)"
    by (auto simp: isValidUrl_def split: option.splits)
  with False show ?thesis by (simp add: shortenHandler_def Let_def)
qed

theorem C6_invalid_url_no_mutation_witness:
  "(newURL sampleConfig (trim ''  ftp://files.example.com/a '') \<noteq> Some ''http:'' \<and>
    newURL sampleConfig (trim ''  ftp://files.example.com/a '') \<noteq> Some ''https:'') \<and>
   response (shortenHandler sampleConfig noFaults \<lparr>urls = [], counter = Some 100000\<rparr>
     (JSString ''  ftp://files.example.com/a '')) \<in>
     {Json 400 (ErrorBody ''Long URL is required and must be a string''),
      Json 400 (ErrorBody ''Invalid URL format. Please include http:// or https://'')} \<and>
   dbCalls (shortenHandler sampleConfig noFaults \<lparr>urls = [], counter = Some 100000\<rparr>
     (JSString ''  ftp://files.example.com/a '')) = [] \<and>
   store (shortenHandler sampleConfig noFaults \<lparr>urls = [], counter = Some 100000\<rparr>
     (JSString ''  ftp://files.example.com/a '')) = \<lparr>urls = [], counter = Some 100000\<rparr>"
proof -
  have h: "newURL sampleConfig (trim ''  ftp://files.example.com/a '') \<noteq> Some ''http:'' \<and>
           newURL sampleConfig (trim ''  ftp://files.example.com/a '') \<noteq> Some ''https:''"
    by (simp add: sampleConfig_def sampleURL_def string_eval)
  then have "''  ftp://files.example.com/a '' = [] \<or>
      newURL sampleConfig (trim ''  ftp://files.example.com/a '') = None \<or>
      (newURL sampleConfig (trim ''  ftp://files.example.com/a '') \<noteq> Some ''http:'' \<and>
       newURL sampleConfig (trim ''  ftp://files.example.com/a '') \<noteq> Some ''https:'')"
    by blast
  from C6_invalid_url_no_mutation [OF this] h show ?thesis by blast
qed

text \<open>
  The claim as the spec states it, of the input string as it is given, fails on a string
  that becomes a valid URL only by trimming. A no-break space (code unit 160) before
  the scheme makes the string no well-formed URL: the URL parser removes only the code
  units up to 32 from the ends. \<open>trim\<close> removes the no-break space, and the request is
  answered 201 and stored.
\<close>

theorem C6_invalid_url_no_mutation_counterexample:
  "newURL sampleConfig (CHR 0xA0 # ''https://example.com/a'') = None \<and>
   response (shortenHandler sampleConfig noFaults (initializeCounter noFaults emptyStore)
     (JSString (CHR 0xA0 # ''https://example.com/a''))) =
     Json 201 (ShortenBody ''http://localhost:5080/q0V'' ''q0V'' ''https://example.com/a''
       ''Short URL created successfully'') \<and>
   store (shortenHandler sampleConfig noFaults (initializeCounter noFaults emptyStore)
     (JSString (CHR 0xA0 # ''https://example.com/a''))) =
     \<lparr>urls = [\<lparr>originalUrl = ''https://example.com/a'', shortCode = ''q0V'', clicks = 0,
                createdAt = 0\<rparr>], counter = Some 100001\<rparr> \<and>
   store (shortenHandler sampleConfig noFaults (initializeCounter noFaults emptyStore)
     (JSString (CHR 0xA0 # ''https://example.com/a''))) \<noteq>
     initializeCounter noFaults emptyStore"
  by (simp add: handler_eval store_eval string_eval encoder_eval)

text \<open>
  C7, as the code has it. The redirect handler answers 400 "Invalid short code format"
  exactly for the paths that fail the format check and are not reserved (empty,
  beginning with \<open>api/\<close>, or \<open>favicon.ico\<close>: those are answered 404 first); it does so
  before any call to the store, and a code that passes the check is never answered 400.
\<close>

theorem C7_format_check:
  "(statusOf (response (redirectHandler e st code)) = 400) =
     (\<not> (code = [] \<or> startsWith code ''api/'' \<or> code = ''favicon.ico'') \<and>
      \<not> isValidShortCode code) \<and>
   (statusOf (response (redirectHandler e st code)) = 400 \<longrightarrow>
      response (redirectHandler e st code) = Json 400 (ErrorBody ''Invalid short code format'') \<and>
      dbCalls (redirectHandler e st code) = [] \<and>
      store (redirectHandler e st code) = st)"
  by (simp add: redirectHandler_def split: sum.splits option.splits prod.splits)

theorem C7_format_check_witness:
  "statusOf (response (redirectHandler noFaults emptyStore ''no-such_code'')) = 400 \<and>
   \<not> isValidShortCode ''no-such_code'' \<and>
   response (redirectHandler noFaults emptyStore ''no-such_code'') =
     Json 400 (ErrorBody ''Invalid short code format'') \<and>
   dbCalls (redirectHandler noFaults emptyStore ''no-such_code'') = [] \<and>
   store (redirectHandler noFaults emptyStore ''no-such_code'') = emptyStore"
proof -
  have h: "\<not> (''no-such_code'' = [] \<or> startsWith ''no-such_code'' ''api/'' \<or>
              ''no-such_code'' = ''favicon.ico'') \<and>
           \<not> isValidShortCode ''no-such_code''"
    by (simp add: string_eval)
  with C7_format_check [of noFaults emptyStore "''no-such_code''"]
  show ?thesis by blast
qed

text \<open>
  The claim as the spec states it fails on a reserved path: \<open>favicon.ico\<close> fails the
  format check and is not answered with the 400 of an invalid short code.
\<close>

theorem C7_format_check_counterexample:
  "\<not> isValidShortCode ''favicon.ico'' \<and>
   response (redirectHandler noFaults emptyStore ''favicon.ico'') =
     Json 404 (ErrorBody ''Page not found'') \<and>
   statusOf (response (redirectHandler noFaults emptyStore ''favicon.ico'')) \<noteq> 400"
  by (simp add: redirectHandler_def string_eval)

text \<open>
  C8. A call of the shorten handler makes at most one counter increment and one
  \<open>save\<close>, stores at most one new document and raises the counter by at most one. When
  the \<open>save\<close> after an allocation is rejected for a duplicate short code, the handler
  answers with the server error 500 after exactly one increment and one \<open>save\<close>: the
  counter keeps the allocated value, no document is stored, and there is no second
  allocation.
\<close>

theorem C8_duplicate_code_no_retry:
  "length (filter (\<lambda>c. c = CounterFindOneAndUpdate)
      (dbCalls (shortenHandler cfg e st longUrl))) \<le> 1 \<and>
   length (urls (store (shortenHandler cfg e st longUrl))) \<le> length (urls st) + 1 \<and>
   counterValue (store (shortenHandler cfg e st longUrl)) \<le> counterValue st + 1 \<and>
   (s \<noteq> [] \<and> isValidUrl cfg (trim s) \<and>
    Url_findOne e (\<lambda>d. originalUrl d = trim s) st = Inr None \<and>
    getNextCounterValue e st = Inr (counterId, st1) \<and>
    Url_save e (new_Url e (trim s) (encodeBase62 counterId)) st1 = Inl DuplicateKey \<longrightarrow>
      shortenHandler cfg e st (JSString s) =
        \<lparr>response = Json 500 (ErrorBody ''Internal server error. Please try again.''),
         dbCalls = [UrlFindOneByOriginalUrl (trim s), CounterFindOneAndUpdate,
                    UrlSave (trim s) (encodeBase62 counterId)],
         store = st\<lparr>counter := Some (counterValue st + 1)\<rparr>\<rparr>)"
proof -
  have bounds:
    "length (filter (\<lambda>c. c = CounterFindOneAndUpdate)
        (dbCalls (shortenHandler cfg e st longUrl))) \<le> 1 \<and>
     length (urls (store (shortenHandler cfg e st longUrl))) \<le> length (urls st) + 1 \<and>
     counterValue (store (shortenHandler cfg e st longUrl)) \<le> counterValue st + 1"
    by (auto simp: shortenHandler_def Let_def Url_findOne_def Url_save_def
        getNextCounterValue_def counterValue_def
        split: js_value.splits sum.splits option.splits prod.splits if_splits)
  have dup: "s \<noteq> [] \<and> isValidUrl cfg (trim s) \<and>
    Url_findOne e (\<lambda>d. originalUrl d = trim s) st = Inr None \<and>
    getNextCounterValue e st = Inr (counterId, st1) \<and>
    Url_save e (new_Url e (trim s) (encodeBase62 counterId)) st1 = Inl DuplicateKey \<longrightarrow>
      shortenHandler cfg e st (JSString s) =
        \<lparr>response = Json 500 (ErrorBody ''Internal server error. Please try again.''),
         dbCalls = [UrlFindOneByOriginalUrl (trim s), CounterFindOneAndUpdate,
                    UrlSave (trim s) (encodeBase62 counterId)],
         store = st\<lparr>counter := Some (counterValue st + 1)\<rparr>\<rparr>"
  proof
    assume a: "s \<noteq> [] \<and> isValidUrl cfg (trim s) \<and>
      Url_findOne e (\<lambda>d. originalUrl d = trim s) st = Inr None \<and>
      getNextCounterValue e st = Inr (counterId, st1) \<and>
      Url_save e (new_Url e (trim s) (encodeBase62 counterId)) st1 = Inl DuplicateKey"
    then have "st1 = st\<lparr>counter := Some (counterValue st + 1)\<rparr>"
      by (auto simp: getNextCounterValue_def counterValue_def Let_def
          split: if_splits option.splits)
    with a show "shortenHandler cfg e st (JSString s) =
        \<lparr>response = Json 500 (ErrorBody ''Internal server error. Please try again.''),
         dbCalls = [UrlFindOneByOriginalUrl (trim s), CounterFindOneAndUpdate,
                    UrlSave (trim s) (encodeBase62 counterId)],
         store = st\<lparr>counter := Some (counterValue st + 1)\<rparr>\<rparr>"
      by (simp add: shortenHandler_def Let_def)
  qed
  from bounds dup show ?thesis by blast
qed

theorem C8_duplicate_code_no_retry_witness:
  "(''http://b.example'' \<noteq> [] \<and> isValidUrl sampleConfig (trim ''http://b.example'') \<and>
    Url_findOne noFaults (\<lambda>d. originalUrl d = trim ''http://b.example'')
      \<lparr>urls = [\<lparr>originalUrl = ''http://a.example'', shortCode = ''q0V'', clicks = 0,
                 createdAt = 0\<rparr>], counter = Some 100000\<rparr> = Inr None \<and>
    getNextCounterValue noFaults
      \<lparr>urls = [\<lparr>originalUrl = ''http://a.example'', shortCode = ''q0V'', clicks = 0,
                 createdAt = 0\<rparr>], counter = Some 100000\<rparr> =
      Inr (100001,
        \<lparr>urls = [\<lparr>originalUrl = ''http://a.example'', shortCode = ''q0V'', clicks = 0,
                   createdAt = 0\<rparr>], counter = Some 100001\<rparr>) \<and>
    Url_save noFaults (new_Url noFaults (trim ''http://b.example'') (encodeBase62 100001))
      \<lparr>urls = [\<lparr>originalUrl = ''http://a.example'', shortCode = ''q0V'', clicks = 0,
                 createdAt = 0\<rparr>], counter = Some 100001\<rparr> = Inl DuplicateKey) \<and>
   shortenHandler sampleConfig noFaults
     \<lparr>urls = [\<lparr>originalUrl = ''http://a.example'', shortCode = ''q0V'', clicks = 0,
                createdAt = 0\<rparr>], counter = Some 100000\<rparr> (JSString ''http://b.example'') =
     \<lparr>response = Json 500 (ErrorBody ''Internal server error. Please try again.''),
      dbCalls = [UrlFindOneByOriginalUrl (trim ''http://b.example''), CounterFindOneAndUpdate,
                 UrlSave (trim ''http://b.example'') (encodeBase62 100001)],
      store = \<lparr>urls = [\<lparr>originalUrl = ''http://a.example'', shortCode = ''q0V'',
                clicks = 0, createdAt = 0\<rparr>], counter = Some 100000\<rparr>
        \<lparr>counter := Some (counterValue
          \<lparr>urls = [\<lparr>originalUrl = ''http://a.example'', shortCode = ''q0V'', clicks = 0,
                     createdAt = 0\<rparr>], counter = Some 100000\<rparr> + 1)\<rparr>\<rparr>"
proof -
  let ?d = "\<lparr>originalUrl = ''http://a.example'', shortCode = ''q0V'', clicks = 0,
             createdAt = 0\<rparr>"
  let ?st = "\<lparr>urls = [?d], counter = Some 100000\<rparr>"
  let ?st1 = "\<lparr>urls = [?d], counter = Some 100001\<rparr>"
  have code: "encodeBase62 100001 = ''q0V''"
    by (simp add: encoder_eval)
  have h: "''http://b.example'' \<noteq> [] \<and> isValidUrl sampleConfig (trim ''http://b.example'') \<and>
      Url_findOne noFaults (\<lambda>d. originalUrl d = trim ''http://b.example'') ?st = Inr None \<and>
      getNextCounterValue noFaults ?st = Inr (100001, ?st1) \<and>
      Url_save noFaults (new_Url noFaults (trim ''http://b.example'') (encodeBase62 100001)) ?st1 =
        Inl DuplicateKey"
    unfolding code
    by (simp add: string_eval store_eval sampleConfig_def sampleURL_def noFaults_def)
  with C8_duplicate_code_no_retry [of sampleConfig noFaults ?st "JSString ''http://b.example''"
      "''http://b.example''" 100001 ?st1]
  show ?thesis by blast
qed

text \<open>
  C9. The response of the redirect handler, and the calls it makes, are the same whether
  the click increment is rejected or not; for a stored code it is the redirect to the
  stored \<open>originalUrl\<close> with status 301 set, and a rejected increment leaves the store
  as it was and changes nothing else.
\<close>

theorem C9_click_failure_not_surfaced:
  "response (redirectHandler (e\<lparr>clickFails := True\<rparr>) st code) =
     response (redirectHandler (e\<lparr>clickFails := False\<rparr>) st code) \<and>
   dbCalls (redirectHandler (e\<lparr>clickFails := True\<rparr>) st code) =
     dbCalls (redirectHandler (e\<lparr>clickFails := False\<rparr>) st code) \<and>
   (isValidShortCode code \<and> \<not> findFails e \<and>
    findOne (\<lambda>d. shortCode d = code) (urls st) = Some (i, urlDoc) \<longrightarrow>
      response (redirectHandler (e\<lparr>clickFails := True\<rparr>) st code) =
        StatusRedirect 301 (originalUrl urlDoc) \<and>
      store (redirectHandler (e\<lparr>clickFails := True\<rparr>) st code) = st)"
proof -
  have reserved: "isValidShortCode code \<Longrightarrow>
      \<not> (code = [] \<or> startsWith code ''api/'' \<or> code = ''favicon.ico'')"
    using reserved_not_valid [of code] by blast
  show ?thesis
    using reserved
    by (auto simp: redirectHandler_def Url_findOne_def Url_findByIdAndUpdate_def
        split: sum.splits option.splits prod.splits)
qed

theorem C9_click_failure_not_surfaced_witness:
  "(isValidShortCode ''q0V'' \<and> \<not> findFails noFaults \<and>
    findOne (\<lambda>d. shortCode d = ''q0V'')
      (urls \<lparr>urls = [\<lparr>originalUrl = ''https://example.com/a/b/c'', shortCode = ''q0V'',
                      clicks = 0, createdAt = 0\<rparr>], counter = Some 100001\<rparr>) =
      Some (0, \<lparr>originalUrl = ''https://example.com/a/b/c'', shortCode = ''q0V'',
                 clicks = 0, createdAt = 0\<rparr>)) \<and>
   response (redirectHandler (noFaults\<lparr>clickFails := True\<rparr>)
     \<lparr>urls = [\<lparr>originalUrl = ''https://example.com/a/b/c'', shortCode = ''q0V'',
                clicks = 0, createdAt = 0\<rparr>], counter = Some 100001\<rparr> ''q0V'') =
     response (redirectHandler (noFaults\<lparr>clickFails := False\<rparr>)
     \<lparr>urls = [\<lparr>originalUrl = ''https://example.com/a/b/c'', shortCode = ''q0V'',
                clicks = 0, createdAt = 0\<rparr>], counter = Some 100001\<rparr> ''q0V'') \<and>
   response (redirectHandler (noFaults\<lparr>clickFails := True\<rparr>)
     \<lparr>urls = [\<lparr>originalUrl = ''https://example.com/a/b/c'', shortCode = ''q0V'',
                clicks = 0, createdAt = 0\<rparr>], counter = Some 100001\<rparr> ''q0V'') =
     StatusRedirect 301
       (originalUrl \<lparr>originalUrl = ''https://example.com/a/b/c'', shortCode = ''q0V'',
                 clicks = 0, createdAt = 0\<rparr>)"
proof -
  let ?d = "\<lparr>originalUrl = ''https://example.com/a/b/c'', shortCode = ''q0V'',
             clicks = 0, createdAt = 0\<rparr>"
  let ?st = "\<lparr>urls = [?d], counter = Some 100001\<rparr>"
  have h: "isValidShortCode ''q0V'' \<and> \<not> findFails noFaults \<and>
           findOne (\<lambda>d. shortCode d = ''q0V'') (urls ?st) = Some (0, ?d)"
    by (simp add: string_eval noFaults_def)
  with C9_click_failure_not_surfaced [of noFaults ?st "''q0V''" 0 ?d]
  show ?thesis by blast
qed

text \<open>
  C10. For a request path that is empty, begins with \<open>api/\<close> or is \<open>favicon.ico\<close>, the
  redirect handler answers 404 "Page not found" without any call to the store (no lookup,
  no click increment); such a path fails the short-code format check, and is answered
  404 all the same, not with the 400 of an invalid short code.
\<close>

theorem C10_reserved_paths:
  assumes "code = [] \<or> startsWith code ''api/'' \<or> code = ''favicon.ico''"
  shows "redirectHandler e st code =
           \<lparr>response = Json 404 (ErrorBody ''Page not found''), dbCalls = [], store = st\<rparr> \<and>
         \<not> isValidShortCode code"
  using assms reserved_not_valid [of code] by (simp add: redirectHandler_def)

theorem C10_reserved_paths_witness:
  "startsWith ''api/unknown'' ''api/'' \<and>
   redirectHandler noFaults emptyStore ''api/unknown'' =
     \<lparr>response = Json 404 (ErrorBody ''Page not found''), dbCalls = [],
      store = emptyStore\<rparr> \<and>
   \<not> isValidShortCode ''api/unknown''"
  using C10_reserved_paths [of "''api/unknown''" noFaults emptyStore]
  by (simp add: startsWith_def)

end
